theory Spec2Isabelle
  imports Complex_Main "HOL-Library.FSet"
begin

section \<open>Data model (app/core/models.py)\<close>

text \<open>
  A \<open>datetime.date\<close> is modelled by its day number (the proleptic Gregorian ordinal), so
  that \<open>d - timedelta(days=1)\<close> is \<open>d - 1\<close> and \<open>(a - b).days\<close> is \<open>a - b\<close>.
  The day numbers are unbounded: the ends of the range of \<open>datetime.date\<close> (the years 1
  and 9999) are not modelled. A Python \<open>float\<close> is modelled by a real number, so that
  arithmetic is exact and every value is a finite number; a \<open>datetime.datetime\<close> is an
  integer time stamp; counts are natural numbers; and \<open>date.today()\<close> is a parameter
  \<open>today\<close> of every function that reads the clock.
\<close>

type_synonym date = int
type_synonym datetime = int

datatype HabitType = BOOLEAN | NUMERIC

record LogEntry =
  log_id :: string
  log_habit_id :: string
  log_date :: date
  log_value :: "real option"
  log_created_at :: datetime

record Habit =
  habit_id :: string
  name :: string
  description :: "string option"
  category :: "string option"
  habit_type :: HabitType
  goal :: "real option"
  created_at :: datetime
  parent_id :: "string option"
  subhabit_ids :: "string list"

section \<open>Statistics engine (app/core/statistics.py)\<close>

record StatisticsResult =
  current_streak :: nat
  longest_streak :: nat
  total_completions :: nat
  completion_rate :: real
  average_value :: "real option"
  total_days_tracked :: nat

text \<open>\<open>StatisticsCalculator._filter_logs_by_date\<close>. A date object is always truthy, so
  \<open>if start:\<close> tests for \<open>None\<close> only.\<close>

definition filter_logs_by_date ::
  "LogEntry list \<Rightarrow> date option \<Rightarrow> date option \<Rightarrow> LogEntry list" where
  "filter_logs_by_date logs wstart wend =
     (let filtered = logs;
          filtered = (case wstart of
                        Some s \<Rightarrow> filter (\<lambda>log. log_date log \<ge> s) filtered
                      | None \<Rightarrow> filtered);
          filtered = (case wend of
                        Some e \<Rightarrow> filter (\<lambda>log. log_date log \<le> e) filtered
                      | None \<Rightarrow> filtered)
      in filtered)"

text \<open>The \<open>while cursor in completed_dates\<close> loop of \<open>_calculate_streaks\<close>. A Python set is
  finite, hence the loop stops: every round moves the cursor below one more member.\<close>

function current_streak_loop :: "date fset \<Rightarrow> date \<Rightarrow> nat \<Rightarrow> nat" where
  "current_streak_loop completed_dates cursor streak =
     (if cursor |\<in>| completed_dates
      then current_streak_loop completed_dates (cursor - 1) (streak + 1)
      else streak)"
  by pat_completeness auto
termination
proof (relation "measure (\<lambda>(S, c, n). card {d \<in> fset S. d \<le> c})")
  show "wf (measure (\<lambda>(S, c, n). card {d \<in> fset S. d \<le> c}))" by simp
next
  fix completed_dates :: "date fset" and cursor :: date and streak :: nat
  assume mem: "cursor |\<in>| completed_dates"
  have "{d \<in> fset completed_dates. d \<le> cursor - 1} \<subset> {d \<in> fset completed_dates. d \<le> cursor}"
    using mem by auto
  then have "card {d \<in> fset completed_dates. d \<le> cursor - 1}
           < card {d \<in> fset completed_dates. d \<le> cursor}"
    by (intro psubset_card_mono) simp_all
  then show "((completed_dates, cursor - 1, streak + 1), (completed_dates, cursor, streak))
        \<in> measure (\<lambda>(S, c, n). card {d \<in> fset S. d \<le> c})"
    by simp
qed

declare current_streak_loop.simps [simp del]

text \<open>The \<open>for i in range(len(sorted_dates))\<close> loop of \<open>_calculate_streaks\<close>; \<open>i\<close> stays below
  the length, and \<open>i - 1\<close> is read only when \<open>i\<close> is positive.\<close>

function longest_streak_loop :: "date list \<Rightarrow> nat \<Rightarrow> nat \<Rightarrow> nat \<Rightarrow> nat" where
  "longest_streak_loop sorted_dates i current longest =
     (if i < length sorted_dates
      then (let current' =
                  (if i = 0 then 1
                   else (let diff = sorted_dates ! i - sorted_dates ! (i - 1)
                         in if diff = 1 then current + 1 else 1));
                longest' = max longest current'
            in longest_streak_loop sorted_dates (i + 1) current' longest')
      else longest)"
  by pat_completeness auto
termination
  by (relation "measure (\<lambda>(ds, i, c, l). length ds - i)") auto

declare longest_streak_loop.simps [simp del]

definition calculate_streaks :: "date \<Rightarrow> date fset \<Rightarrow> nat \<times> nat" where
  "calculate_streaks today completed_dates =
     (if completed_dates = {||} then (0, 0)
      else (let sorted_dates = sorted_list_of_fset completed_dates;
                cur = current_streak_loop completed_dates today 0;
                longest = longest_streak_loop sorted_dates 0 0 0
            in (cur, longest)))"

text \<open>\<open>BooleanStatisticsCalculator.calculate\<close>: the loop that collects the completed dates,
  and the method itself. The habit is not read.\<close>

definition boolean_completed_dates :: "LogEntry list \<Rightarrow> date fset" where
  "boolean_completed_dates filtered_logs =
     fold (\<lambda>log completed_dates.
             (case log_value log of
                None \<Rightarrow> completed_dates
              | Some v \<Rightarrow> if v \<ge> 1 then finsert (log_date log) completed_dates
                          else completed_dates))
          filtered_logs {||}"

definition boolean_calculate ::
  "date \<Rightarrow> Habit \<Rightarrow> LogEntry list \<Rightarrow> date option \<Rightarrow> date option \<Rightarrow> StatisticsResult" where
  "boolean_calculate today habit logs wstart wend =
     (let filtered_logs = filter_logs_by_date logs wstart wend;
          completed_dates = boolean_completed_dates filtered_logs;
          (cur, longest) = calculate_streaks today completed_dates;
          completions = fcard completed_dates;
          total_days = (if filtered_logs \<noteq> [] then length filtered_logs else 0);
          rate = (if total_days > 0 then real completions / real total_days else 0)
      in \<lparr>current_streak = cur, longest_streak = longest, total_completions = completions,
          completion_rate = rate, average_value = None, total_days_tracked = total_days\<rparr>)"

text \<open>\<open>NumericStatisticsCalculator.calculate\<close>: the loop carries the completed dates and the
  list of values; the \<open>elif\<close> belongs to the test of the goal.\<close>

definition numeric_collect :: "Habit \<Rightarrow> LogEntry list \<Rightarrow> date fset \<times> real list" where
  "numeric_collect habit filtered_logs =
     fold (\<lambda>log (completed_dates, vals).
             (case log_value log of
                None \<Rightarrow> (completed_dates, vals)
              | Some v \<Rightarrow>
                  (let vals' = vals @ [v]
                   in (case goal habit of
                         Some g \<Rightarrow> if v \<ge> g then (finsert (log_date log) completed_dates, vals')
                                   else (completed_dates, vals')
                       | None \<Rightarrow> if v > 0 then (finsert (log_date log) completed_dates, vals')
                                 else (completed_dates, vals')))))
          filtered_logs ({||}, [])"

definition numeric_calculate ::
  "date \<Rightarrow> Habit \<Rightarrow> LogEntry list \<Rightarrow> date option \<Rightarrow> date option \<Rightarrow> StatisticsResult" where
  "numeric_calculate today habit logs wstart wend =
     (let filtered_logs = filter_logs_by_date logs wstart wend;
          (completed_dates, vals) = numeric_collect habit filtered_logs;
          (cur, longest) = calculate_streaks today completed_dates;
          completions = fcard completed_dates;
          total_days = (if filtered_logs \<noteq> [] then length filtered_logs else 0);
          rate = (if total_days > 0 then real completions / real total_days else 0);
          average = (if vals \<noteq> [] then Some (sum_list vals / real (length vals)) else None)
      in \<lparr>current_streak = cur, longest_streak = longest, total_completions = completions,
          completion_rate = rate, average_value = average, total_days_tracked = total_days\<rparr>)"

text \<open>\<open>StatisticsCalculatorFactory\<close>: the registry as it is initialised, its lookup, and the
  call of the calculator it returns.\<close>

datatype error = ValueError string | KeyError string | RecursionError | HTTPException nat string

datatype StatisticsCalculator = BooleanStatisticsCalculator | NumericStatisticsCalculator

definition calculators :: "HabitType \<rightharpoonup> StatisticsCalculator" where
  "calculators = [BOOLEAN \<mapsto> BooleanStatisticsCalculator, NUMERIC \<mapsto> NumericStatisticsCalculator]"

definition get_calculator :: "HabitType \<Rightarrow> error + StatisticsCalculator" where
  "get_calculator ht =
     (case calculators ht of
        None \<Rightarrow> Inl (ValueError ''No calculator found for habit type'')
      | Some calculator \<Rightarrow> Inr calculator)"

fun calculate ::
  "StatisticsCalculator \<Rightarrow> date \<Rightarrow> Habit \<Rightarrow> LogEntry list \<Rightarrow> date option \<Rightarrow> date option
     \<Rightarrow> StatisticsResult" where
  "calculate BooleanStatisticsCalculator today habit logs wstart wend =
     boolean_calculate today habit logs wstart wend"
| "calculate NumericStatisticsCalculator today habit logs wstart wend =
     numeric_calculate today habit logs wstart wend"

text \<open>The statistics of a habit as \<open>HabitService.get_statistics\<close> computes them from the logs
  it has fetched: the calculator registered for the habit's type, applied to the habit.\<close>

definition habit_statistics ::
  "date \<Rightarrow> Habit \<Rightarrow> LogEntry list \<Rightarrow> date option \<Rightarrow> date option \<Rightarrow> error + StatisticsResult" where
  "habit_statistics today habit logs wstart wend =
     (case get_calculator (habit_type habit) of
        Inl e \<Rightarrow> Inl e
      | Inr calculator \<Rightarrow> Inr (calculate calculator today habit logs wstart wend))"

section \<open>In-memory repositories (app/db/in_memory.py)\<close>

text \<open>\<open>InMemoryHabitRepository\<close> keeps a dict from ids to habits, \<open>InMemoryLogRepository\<close> a
  list of entries in the order they were added.\<close>

type_synonym habit_storage = "string \<rightharpoonup> Habit"
type_synonym log_storage = "LogEntry list"

definition habits_add :: "habit_storage \<Rightarrow> Habit \<Rightarrow> habit_storage" where
  "habits_add storage habit = storage(habit_id habit \<mapsto> habit)"

definition habits_get :: "habit_storage \<Rightarrow> string \<Rightarrow> Habit option" where
  "habits_get storage hid = storage hid"

definition habits_update :: "habit_storage \<Rightarrow> Habit \<Rightarrow> error + habit_storage" where
  "habits_update storage habit =
     (if habit_id habit \<notin> dom storage then Inl (KeyError ''Habit not found'')
      else Inr (storage(habit_id habit \<mapsto> habit)))"

definition habits_delete :: "habit_storage \<Rightarrow> string \<Rightarrow> habit_storage" where
  "habits_delete storage hid = storage(hid := None)"

definition logs_add :: "log_storage \<Rightarrow> LogEntry \<Rightarrow> log_storage" where
  "logs_add storage entry = storage @ [entry]"

definition logs_list_for_habit ::
  "log_storage \<Rightarrow> string \<Rightarrow> date option \<Rightarrow> date option \<Rightarrow> LogEntry list" where
  "logs_list_for_habit storage hid wstart wend =
     (let logs = filter (\<lambda>log. log_habit_id log = hid) storage;
          logs = (case wstart of
                    Some s \<Rightarrow> filter (\<lambda>log. log_date log \<ge> s) logs
                  | None \<Rightarrow> logs);
          logs = (case wend of
                    Some e \<Rightarrow> filter (\<lambda>log. log_date log \<le> e) logs
                  | None \<Rightarrow> logs)
      in sort_key log_date logs)"

section \<open>Habit service (app/core/services.py)\<close>

record HabitService =
  habit_repo :: habit_storage
  log_repo :: log_storage

text \<open>\<open>HabitUpdate\<close> of app/api/schemas.py.\<close>

record HabitUpdate =
  upd_name :: "string option"
  upd_description :: "string option"
  upd_category :: "string option"
  upd_goal :: "real option"

text \<open>
  Every operation takes the service and returns its outcome (\<open>Inl\<close> the exception raised)
  together with the service as the operation leaves it, also when it raises. The in-memory
  repository hands out the stored object itself, so an assignment to a field of a habit
  obtained by \<open>get\<close> is a write to the storage at the id it was fetched with; the model makes
  that write explicit (\<open>write_back\<close>).
\<close>

definition write_back :: "HabitService \<Rightarrow> string \<Rightarrow> Habit \<Rightarrow> HabitService" where
  "write_back svc hid habit = svc\<lparr>habit_repo := (habit_repo svc)(hid \<mapsto> habit)\<rparr>"

definition create_habit :: "Habit \<Rightarrow> HabitService \<Rightarrow> HabitService" where
  "create_habit habit svc = svc\<lparr>habit_repo := habits_add (habit_repo svc) habit\<rparr>"

definition get_habit :: "string \<Rightarrow> HabitService \<Rightarrow> Habit option" where
  "get_habit hid svc = habits_get (habit_repo svc) hid"

definition update_habit ::
  "string \<Rightarrow> HabitUpdate \<Rightarrow> HabitService \<Rightarrow> (error + Habit) \<times> HabitService" where
  "update_habit hid update svc =
     (case habits_get (habit_repo svc) hid of
        None \<Rightarrow> (Inl (ValueError ''Habit not found''), svc)
      | Some habit \<Rightarrow>
          (let habit = (case upd_name update of Some n \<Rightarrow> habit\<lparr>name := n\<rparr> | None \<Rightarrow> habit);
               habit = (case upd_description update of
                          Some d \<Rightarrow> habit\<lparr>description := Some d\<rparr> | None \<Rightarrow> habit);
               habit = (case upd_category update of
                          Some c \<Rightarrow> habit\<lparr>category := Some c\<rparr> | None \<Rightarrow> habit);
               habit = (case upd_goal update of
                          Some g \<Rightarrow> habit\<lparr>goal := Some g\<rparr> | None \<Rightarrow> habit);
               svc = write_back svc hid habit
           in (case habits_update (habit_repo svc) habit of
                 Inl e \<Rightarrow> (Inl e, svc)
               | Inr storage \<Rightarrow> (Inr habit, svc\<lparr>habit_repo := storage\<rparr>))))"

text \<open>
  \<open>delete_habit\<close> calls itself for every sub-habit and has no guard against a cycle. The
  first argument bounds the depth of the recursion, as the interpreter's recursion limit
  does: at depth zero the call raises \<open>RecursionError\<close>. \<open>delete_subhabits\<close> is the
  \<open>for subhabit_id in habit.subhabit_ids\<close> loop, left at the first exception.
\<close>

fun delete_habit :: "nat \<Rightarrow> string \<Rightarrow> HabitService \<Rightarrow> (error + unit) \<times> HabitService"
and delete_subhabits :: "nat \<Rightarrow> string list \<Rightarrow> HabitService \<Rightarrow> (error + unit) \<times> HabitService"
where
  "delete_habit 0 hid svc = (Inl RecursionError, svc)"
| "delete_habit (Suc depth) hid svc =
     (case habits_get (habit_repo svc) hid of
        None \<Rightarrow> (Inl (ValueError ''Habit not found''), svc)
      | Some habit \<Rightarrow>
          (case delete_subhabits depth (subhabit_ids habit) svc of
             (Inl e, svc') \<Rightarrow> (Inl e, svc')
           | (Inr u, svc') \<Rightarrow>
               (Inr (), svc'\<lparr>habit_repo := habits_delete (habit_repo svc') hid\<rparr>)))"
| "delete_subhabits depth [] svc = (Inr (), svc)"
| "delete_subhabits depth (subhabit_id # rest) svc =
     (case delete_habit depth subhabit_id svc of
        (Inl e, svc') \<Rightarrow> (Inl e, svc')
      | (Inr u, svc') \<Rightarrow> delete_subhabits depth rest svc')"

definition add_subhabit ::
  "string \<Rightarrow> Habit \<Rightarrow> HabitService \<Rightarrow> (error + unit) \<times> HabitService" where
  "add_subhabit pid subhabit svc =
     (case habits_get (habit_repo svc) pid of
        None \<Rightarrow> (Inl (ValueError ''Parent habit not found''), svc)
      | Some parent \<Rightarrow>
          (let subhabit = subhabit\<lparr>parent_id := Some pid\<rparr>;
               parent = parent\<lparr>subhabit_ids := subhabit_ids parent @ [habit_id subhabit]\<rparr>;
               svc = write_back svc pid parent;
               svc = svc\<lparr>habit_repo := habits_add (habit_repo svc) subhabit\<rparr>
           in (case habits_update (habit_repo svc) parent of
                 Inl e \<Rightarrow> (Inl e, svc)
               | Inr storage \<Rightarrow> (Inr (), svc\<lparr>habit_repo := storage\<rparr>))))"

text \<open>\<open>LogEntry.create\<close> draws a fresh uuid and reads the clock; both are arguments here.\<close>

definition LogEntry_create :: "string \<Rightarrow> datetime \<Rightarrow> string \<Rightarrow> date \<Rightarrow> real option \<Rightarrow> LogEntry" where
  "LogEntry_create uuid now hid d v =
     \<lparr>log_id = uuid, log_habit_id = hid, log_date = d, log_value = v, log_created_at = now\<rparr>"

definition record_log ::
  "string \<Rightarrow> datetime \<Rightarrow> string \<Rightarrow> date \<Rightarrow> real option \<Rightarrow> HabitService
     \<Rightarrow> (error + LogEntry) \<times> HabitService" where
  "record_log uuid now hid d v svc =
     (case habits_get (habit_repo svc) hid of
        None \<Rightarrow> (Inl (ValueError ''Habit not found''), svc)
      | Some habit \<Rightarrow>
          (let log = LogEntry_create uuid now hid d v
           in (Inr log, svc\<lparr>log_repo := logs_add (log_repo svc) log\<rparr>)))"

definition get_logs ::
  "string \<Rightarrow> date option \<Rightarrow> date option \<Rightarrow> HabitService
     \<Rightarrow> (error + LogEntry list) \<times> HabitService" where
  "get_logs hid wstart wend svc =
     (case habits_get (habit_repo svc) hid of
        None \<Rightarrow> (Inl (ValueError ''Habit not found''), svc)
      | Some habit \<Rightarrow> (Inr (logs_list_for_habit (log_repo svc) hid wstart wend), svc))"

text \<open>\<open>get_statistics\<close> returns a dict of the habit id and the six fields of the result; the
  model returns the id paired with the result.\<close>

definition get_statistics ::
  "date \<Rightarrow> string \<Rightarrow> date option \<Rightarrow> date option \<Rightarrow> HabitService
     \<Rightarrow> (error + string \<times> StatisticsResult) \<times> HabitService" where
  "get_statistics today hid wstart wend svc =
     (case habits_get (habit_repo svc) hid of
        None \<Rightarrow> (Inl (ValueError ''Habit not found''), svc)
      | Some habit \<Rightarrow>
          (let logs = logs_list_for_habit (log_repo svc) hid wstart wend
           in (case habit_statistics today habit logs wstart wend of
                 Inl e \<Rightarrow> (Inl e, svc)
               | Inr result \<Rightarrow> (Inr (hid, result), svc))))"

section \<open>API layer (app/api/controllers.py, app/api/schemas.py)\<close>

record HabitCreate =
  hc_name :: string
  hc_description :: "string option"
  hc_category :: "string option"
  hc_type :: HabitType
  hc_goal :: "real option"
  hc_parent_id :: "string option"

text \<open>The controllers build the habit from the payload with a fresh uuid, the time of the call
  and an empty list of sub-habits, and turn a \<open>ValueError\<close> of the service into a 404.\<close>

definition not_found :: "error \<Rightarrow> error" where
  "not_found e = (case e of ValueError msg \<Rightarrow> HTTPException 404 msg | _ \<Rightarrow> e)"

definition api_create_habit ::
  "string \<Rightarrow> datetime \<Rightarrow> HabitCreate \<Rightarrow> HabitService \<Rightarrow> Habit \<times> HabitService" where
  "api_create_habit uuid now payload svc =
     (let habit = \<lparr>habit_id = uuid, name = hc_name payload,
                   description = hc_description payload, category = hc_category payload,
                   habit_type = hc_type payload, goal = hc_goal payload, created_at = now,
                   parent_id = hc_parent_id payload, subhabit_ids = []\<rparr>
      in (habit, create_habit habit svc))"

definition api_add_subhabit ::
  "string \<Rightarrow> datetime \<Rightarrow> string \<Rightarrow> HabitCreate \<Rightarrow> HabitService
     \<Rightarrow> (error + Habit) \<times> HabitService" where
  "api_add_subhabit uuid now hid payload svc =
     (let sub = \<lparr>habit_id = uuid, name = hc_name payload,
                 description = hc_description payload, category = hc_category payload,
                 habit_type = hc_type payload, goal = hc_goal payload, created_at = now,
                 parent_id = Some hid, subhabit_ids = []\<rparr>
      in (case add_subhabit hid sub svc of
            (Inl e, svc') \<Rightarrow> (Inl (not_found e), svc')
          | (Inr u, svc') \<Rightarrow> (Inr (sub\<lparr>parent_id := Some hid\<rparr>), svc')))"

definition api_delete_habit ::
  "nat \<Rightarrow> string \<Rightarrow> HabitService \<Rightarrow> (error + unit) \<times> HabitService" where
  "api_delete_habit depth hid svc =
     (case delete_habit depth hid svc of
        (Inl e, svc') \<Rightarrow> (Inl (not_found e), svc')
      | (Inr u, svc') \<Rightarrow> (Inr (), svc'))"

section \<open>SQLite repository (app/db/sqlite.py)\<close>

text \<open>
  The table of habits is a map from the primary key to the row, and a row holds the fields
  of the habit (the JSON text of \<open>subhabit_ids\<close> and the ISO text of \<open>created_at\<close> are read
  back as they were written). \<open>get\<close> builds a new object from the row, and \<open>update\<close> writes
  five columns of the row with the habit's id.
\<close>

definition sqlite_get :: "habit_storage \<Rightarrow> string \<Rightarrow> Habit option" where
  "sqlite_get table hid = table hid"

definition sqlite_update :: "habit_storage \<Rightarrow> Habit \<Rightarrow> error + habit_storage" where
  "sqlite_update table habit =
     (case table (habit_id habit) of
        None \<Rightarrow> Inl (KeyError ''Habit not found'')
      | Some row \<Rightarrow>
          Inr (table(habit_id habit \<mapsto>
                 row\<lparr>name := name habit, description := description habit,
                     category := category habit, goal := goal habit,
                     subhabit_ids := subhabit_ids habit\<rparr>)))"

text \<open>\<open>HabitService.update_habit\<close> over the SQLite repository: the habit it changes is the
  copy that \<open>get\<close> returned, so nothing is stored before \<open>update\<close>.\<close>

definition update_habit_sqlite ::
  "string \<Rightarrow> HabitUpdate \<Rightarrow> HabitService \<Rightarrow> (error + Habit) \<times> HabitService" where
  "update_habit_sqlite hid update svc =
     (case sqlite_get (habit_repo svc) hid of
        None \<Rightarrow> (Inl (ValueError ''Habit not found''), svc)
      | Some habit \<Rightarrow>
          (let habit = (case upd_name update of Some n \<Rightarrow> habit\<lparr>name := n\<rparr> | None \<Rightarrow> habit);
               habit = (case upd_description update of
                          Some d \<Rightarrow> habit\<lparr>description := Some d\<rparr> | None \<Rightarrow> habit);
               habit = (case upd_category update of
                          Some c \<Rightarrow> habit\<lparr>category := Some c\<rparr> | None \<Rightarrow> habit);
               habit = (case upd_goal update of
                          Some g \<Rightarrow> habit\<lparr>goal := Some g\<rparr> | None \<Rightarrow> habit)
           in (case sqlite_update (habit_repo svc) habit of
                 Inl e \<Rightarrow> (Inl e, svc)
               | Inr table \<Rightarrow> (Inr habit, svc\<lparr>habit_repo := table\<rparr>))))"

section \<open>The properties in the words of the specification\<close>

text \<open>The \<open>n\<close> consecutive calendar days that end at \<open>d\<close> (\<open>d\<close>, the day before, and so on)
  are all completed.\<close>

definition run_ending_at :: "date fset \<Rightarrow> date \<Rightarrow> nat \<Rightarrow> bool" where
  "run_ending_at completed_dates d n = (\<forall>k \<in> {0..<n}. d - int k |\<in>| completed_dates)"

text \<open>The entry lies in the inclusive window; an absent bound does not restrict.\<close>

definition in_window :: "date option \<Rightarrow> date option \<Rightarrow> LogEntry \<Rightarrow> bool" where
  "in_window wstart wend entry =
     ((case wstart of Some s \<Rightarrow> s \<le> log_date entry | None \<Rightarrow> True) \<and>
      (case wend of Some e \<Rightarrow> log_date entry \<le> e | None \<Rightarrow> True))"

text \<open>The completion rule of the specification: a value is present and reaches 1.0 for a
  boolean habit, the goal for a numeric habit that has one, and is positive for a numeric
  habit without a goal.\<close>

definition completes :: "Habit \<Rightarrow> LogEntry \<Rightarrow> bool" where
  "completes habit entry =
     (case log_value entry of
        None \<Rightarrow> False
      | Some v \<Rightarrow>
          (case habit_type habit of
             BOOLEAN \<Rightarrow> v \<ge> 1
           | NUMERIC \<Rightarrow> (case goal habit of Some g \<Rightarrow> v \<ge> g | None \<Rightarrow> v > 0)))"

text \<open>The linkage invariant of the specification at one id: the parent of the habit stored
  there is stored, and every id among its sub-habits is stored with this habit as parent.\<close>

definition linkage_holds_at :: "HabitService \<Rightarrow> string \<Rightarrow> bool" where
  "linkage_holds_at svc hid =
     (case get_habit hid svc of
        None \<Rightarrow> True
      | Some habit \<Rightarrow>
          (case parent_id habit of None \<Rightarrow> True | Some p \<Rightarrow> get_habit p svc \<noteq> None) \<and>
          list_all (\<lambda>c. case get_habit c svc of
                          None \<Rightarrow> False
                        | Some child \<Rightarrow> parent_id child = Some (habit_id habit))
                   (subhabit_ids habit))"

text \<open>
  The subtree of a habit in the words of the specification: the habit, then, for every id in
  its \<open>subhabit_ids\<close> in turn, the subtree of that id. The result is \<open>None\<close> when an id
  met on the way is not stored or the tree is deeper than the bound. The subtree is well
  formed when it exists and no id occurs in it twice.
\<close>

fun subtree_ids :: "nat \<Rightarrow> habit_storage \<Rightarrow> string \<Rightarrow> string list option"
and forest_ids :: "nat \<Rightarrow> habit_storage \<Rightarrow> string list \<Rightarrow> string list option"
where
  "subtree_ids 0 storage hid = None"
| "subtree_ids (Suc depth) storage hid =
     (case storage hid of
        None \<Rightarrow> None
      | Some habit \<Rightarrow>
          (case forest_ids depth storage (subhabit_ids habit) of
             None \<Rightarrow> None
           | Some below \<Rightarrow> Some (hid # below)))"
| "forest_ids depth storage [] = Some []"
| "forest_ids depth storage (c # rest) =
     (case subtree_ids depth storage c of
        None \<Rightarrow> None
      | Some first \<Rightarrow>
          (case forest_ids depth storage rest of
             None \<Rightarrow> None
           | Some others \<Rightarrow> Some (first @ others)))"

section \<open>Example data\<close>

definition example_boolean_habit :: Habit where
  "example_boolean_habit =
     \<lparr>habit_id = ''h1'', name = ''Exercise'', description = None, category = None,
      habit_type = BOOLEAN, goal = None, created_at = 0, parent_id = None, subhabit_ids = []\<rparr>"

definition example_numeric_habit :: Habit where
  "example_numeric_habit =
     \<lparr>habit_id = ''h2'', name = ''Read Pages'', description = None, category = None,
      habit_type = NUMERIC, goal = Some 10, created_at = 0, parent_id = None, subhabit_ids = []\<rparr>"

definition example_entry :: "string \<Rightarrow> date \<Rightarrow> real option \<Rightarrow> LogEntry" where
  "example_entry hid d v = LogEntry_create ''log'' 0 hid d v"

definition example_boolean_logs :: "LogEntry list" where
  "example_boolean_logs =
     [example_entry ''h1'' 100 (Some 1), example_entry ''h1'' 100 (Some 2),
      example_entry ''h1'' 99 (Some (1/2)), example_entry ''h1'' 98 None,
      example_entry ''h1'' 80 (Some 1)]"

definition example_numeric_logs :: "LogEntry list" where
  "example_numeric_logs =
     [example_entry ''h2'' 100 (Some 15), example_entry ''h2'' 99 (Some 12),
      example_entry ''h2'' 98 (Some 5), example_entry ''h2'' 97 None]"

definition example_historical_logs :: "LogEntry list" where
  "example_historical_logs =
     [example_entry ''h1'' 90 (Some 1), example_entry ''h1'' 91 (Some 1),
      example_entry ''h1'' 92 (Some 1), example_entry ''h1'' 93 (Some 1),
      example_entry ''h1'' 94 (Some 1)]"

definition empty_service :: HabitService where
  "empty_service = \<lparr>habit_repo = Map.empty, log_repo = []\<rparr>"

definition example_payload :: "string \<Rightarrow> HabitCreate" where
  "example_payload n =
     \<lparr>hc_name = n, hc_description = None, hc_category = None, hc_type = BOOLEAN,
      hc_goal = None, hc_parent_id = None\<rparr>"

text \<open>A parent \<open>p\<close> with one sub-habit \<open>c\<close>, built through the API.\<close>

definition example_family :: HabitService where
  "example_family =
     snd (api_add_subhabit ''c'' 1 ''p'' (example_payload ''Sub'')
       (snd (api_create_habit ''p'' 0 (example_payload ''Parent'') empty_service)))"

definition example_update :: HabitUpdate where
  "example_update =
     \<lparr>upd_name = Some ''Updated'', upd_description = None, upd_category = None,
      upd_goal = Some 10\<rparr>"

text \<open>Parent \<open>p\<close> with sub-habits \<open>a\<close> and \<open>d\<close>, where \<open>d\<close> has been deleted afterwards.\<close>

definition example_dangling :: HabitService where
  "example_dangling =
     snd (api_delete_habit 1000 ''d''
       (snd (api_add_subhabit ''d'' 2 ''p'' (example_payload ''Second'')
         (snd (api_add_subhabit ''a'' 1 ''p'' (example_payload ''First'')
           (snd (api_create_habit ''p'' 0 (example_payload ''Parent'') empty_service)))))))"

text \<open>The same, where \<open>a\<close> had a sub-habit \<open>e\<close> of its own that has been deleted as well.\<close>

definition example_nested_dangling :: HabitService where
  "example_nested_dangling =
     snd (api_delete_habit 1000 ''d''
       (snd (api_delete_habit 1000 ''e''
         (snd (api_add_subhabit ''e'' 3 ''a'' (example_payload ''Third'')
           (snd (api_add_subhabit ''d'' 2 ''p'' (example_payload ''Second'')
             (snd (api_add_subhabit ''a'' 1 ''p'' (example_payload ''First'')
               (snd (api_create_habit ''p'' 0 (example_payload ''Parent'') empty_service)))))))))))"

text \<open>Three levels built through the API: \<open>p\<close> with the sub-habit \<open>a\<close>, which has the
  sub-habit \<open>e\<close>.\<close>

definition example_three_levels :: HabitService where
  "example_three_levels =
     snd (api_add_subhabit ''e'' 2 ''a'' (example_payload ''Third'')
       (snd (api_add_subhabit ''a'' 1 ''p'' (example_payload ''First'')
         (snd (api_create_habit ''p'' 0 (example_payload ''Parent'') empty_service)))))"

text \<open>The same after \<open>e\<close> has been deleted: \<open>p\<close> has the one sub-habit \<open>a\<close>.\<close>

definition example_one_subhabit :: HabitService where
  "example_one_subhabit = snd (api_delete_habit 1000 ''e'' example_three_levels)"

section \<open>Auxiliary notions for the proofs\<close>

text \<open>The rule of the numeric calculator on one entry.\<close>

definition numeric_ok :: "Habit \<Rightarrow> LogEntry \<Rightarrow> bool" where
  "numeric_ok habit entry =
    (\<exists>v. log_value entry = Some v \<and> (case goal habit of Some g \<Rightarrow> v \<ge> g | None \<Rightarrow> v > 0))"

text \<open>The second service holds the same logs and a part of the habits of the first.\<close>

definition shrinks :: "HabitService \<Rightarrow> HabitService \<Rightarrow> bool" where
  "shrinks svc svc' =
     (log_repo svc' = log_repo svc \<and>
      (\<forall>k. habit_repo svc' k = None \<or> habit_repo svc' k = habit_repo svc k))"

section \<open>Streaks\<close>

lemma below_card_less:
  assumes "c |\<in>| S"
  shows "card {d \<in> fset S. d \<le> c - 1} < card {d \<in> fset S. d \<le> (c::int)}"
proof -
  have "{d \<in> fset S. d \<le> c - 1} \<subset> {d \<in> fset S. d \<le> c}"
    using assms by auto
  then show ?thesis
    by (intro psubset_card_mono) simp_all
qed

lemma current_streak_loop_acc:
  "current_streak_loop S c n = n + current_streak_loop S c 0"
proof (induction "card {d \<in> fset S. d \<le> c}" arbitrary: c n rule: less_induct)
  case less
  show ?case
  proof (cases "c |\<in>| S")
    case True
    note sm = below_card_less [OF True]
    have "current_streak_loop S c n = current_streak_loop S (c - 1) (n + 1)"
      using True by (simp add: current_streak_loop.simps [of S c n])
    also have "\<dots> = (n + 1) + current_streak_loop S (c - 1) 0"
      by (rule less.hyps [OF sm])
    finally have a: "current_streak_loop S c n = (n + 1) + current_streak_loop S (c - 1) 0" .
    have "current_streak_loop S c 0 = current_streak_loop S (c - 1) (0 + 1)"
      using True by (simp add: current_streak_loop.simps [of S c 0])
    also have "\<dots> = (0 + 1) + current_streak_loop S (c - 1) 0"
      by (rule less.hyps [OF sm])
    finally show ?thesis using a by simp
  next
    case False
    then show ?thesis by (simp add: current_streak_loop.simps [of S c])
  qed
qed

lemma current_streak_in:
  "c |\<in>| S \<Longrightarrow> current_streak_loop S c 0 = Suc (current_streak_loop S (c - 1) 0)"
  using current_streak_loop_acc [of S "c - 1" 1]
  by (simp add: current_streak_loop.simps [of S c 0])

lemma current_streak_out:
  "c |\<notin>| S \<Longrightarrow> current_streak_loop S c 0 = 0"
  by (simp add: current_streak_loop.simps [of S c 0])

lemma current_streak_run:
  "run_ending_at S c (current_streak_loop S c 0) \<and> c - int (current_streak_loop S c 0) |\<notin>| S"
proof (induction "card {d \<in> fset S. d \<le> c}" arbitrary: c rule: less_induct)
  case less
  show ?case
  proof (cases "c |\<in>| S")
    case True
    note ih = less.hyps [OF below_card_less [OF True]]
    let ?m = "current_streak_loop S (c - 1) 0"
    have eq: "current_streak_loop S c 0 = Suc ?m"
      by (rule current_streak_in [OF True])
    have "run_ending_at S c (Suc ?m)"
      unfolding run_ending_at_def
    proof
      fix k assume k: "k \<in> {0..<Suc ?m}"
      show "c - int k |\<in>| S"
      proof (cases k)
        case 0
        then show ?thesis using True by simp
      next
        case (Suc j)
        then have "j \<in> {0..<?m}" using k by simp
        then have "(c - 1) - int j |\<in>| S"
          using ih by (simp add: run_ending_at_def)
        then show ?thesis using Suc by (simp add: algebra_simps)
      qed
    qed
    moreover have "c - int (Suc ?m) |\<notin>| S"
      using ih by (simp add: algebra_simps)
    ultimately show ?thesis by (simp only: eq) simp
  next
    case False
    then show ?thesis by (simp add: run_ending_at_def current_streak_out)
  qed
qed

lemma run_le_current_streak:
  assumes "run_ending_at S c n"
  shows "n \<le> current_streak_loop S c 0"
proof (rule ccontr)
  assume "\<not> n \<le> current_streak_loop S c 0"
  then have "current_streak_loop S c 0 \<in> {0..<n}" by simp
  then have "c - int (current_streak_loop S c 0) |\<in>| S"
    using assms unfolding run_ending_at_def by blast
  then show False using current_streak_run [of S c] by simp
qed

lemma pred_in_sorted:
  assumes ss: "sorted_wrt (<) ds" and i: "i < length ds"
  shows "(ds ! i - 1 \<in> set ds) \<longleftrightarrow> (0 < i \<and> ds ! i - ds ! (i - 1) = (1::int))"
proof
  assume "ds ! i - 1 \<in> set ds"
  then obtain j where j: "j < length ds" "ds ! j = ds ! i - 1"
    by (auto simp: in_set_conv_nth)
  have "j < i"
  proof (rule ccontr)
    assume "\<not> j < i"
    then have "i = j \<or> i < j" by auto
    then have "ds ! i \<le> ds ! j"
    proof
      assume "i = j" then show ?thesis by simp
    next
      assume "i < j"
      then have "ds ! i < ds ! j"
        using ss j(1) by (simp add: sorted_wrt_iff_nth_less)
      then show ?thesis by simp
    qed
    then show False using j(2) by simp
  qed
  then have pos: "0 < i" by simp
  have "ds ! (i - 1) < ds ! i"
    using ss i pos by (simp add: sorted_wrt_iff_nth_less)
  moreover have "ds ! j \<le> ds ! (i - 1)"
  proof (cases "j = i - 1")
    case True
    then show ?thesis by simp
  next
    case False
    then have "j < i - 1" using \<open>j < i\<close> by simp
    then have "ds ! j < ds ! (i - 1)"
      using ss i by (simp add: sorted_wrt_iff_nth_less)
    then show ?thesis by simp
  qed
  ultimately show "0 < i \<and> ds ! i - ds ! (i - 1) = 1"
    using pos j(2) by simp
next
  assume a: "0 < i \<and> ds ! i - ds ! (i - 1) = 1"
  then have "ds ! i - 1 = ds ! (i - 1)" by simp
  moreover have "ds ! (i - 1) \<in> set ds"
    using i by (simp add: less_imp_diff_less)
  ultimately show "ds ! i - 1 \<in> set ds" by simp
qed

text \<open>What one round of the scan computes: the run ending at the date it looks at.\<close>

lemma scan_step:
  assumes ss: "sorted_wrt (<) ds" and S: "set ds = fset S" and i: "i < length ds"
    and cur: "0 < i \<longrightarrow> current = current_streak_loop S (ds ! (i - 1)) 0"
  shows "(if i = 0 then 1
          else (let diff = ds ! i - ds ! (i - 1) in if diff = 1 then current + 1 else 1))
         = current_streak_loop S (ds ! i) 0"
proof -
  have mem: "ds ! i |\<in>| S" using S i by (metis nth_mem)
  have pred: "(ds ! i - 1 |\<in>| S) \<longleftrightarrow> (0 < i \<and> ds ! i - ds ! (i - 1) = 1)"
    using pred_in_sorted [OF ss i] S by simp
  have unfold: "current_streak_loop S (ds ! i) 0 = Suc (current_streak_loop S (ds ! i - 1) 0)"
    by (rule current_streak_in [OF mem])
  show ?thesis
  proof (cases "0 < i \<and> ds ! i - ds ! (i - 1) = 1")
    case True
    then have "ds ! i - 1 = ds ! (i - 1)" by simp
    then show ?thesis using True cur unfold by simp
  next
    case False
    then have "ds ! i - 1 |\<notin>| S" using pred by simp
    then have "current_streak_loop S (ds ! i) 0 = 1"
      using unfold by (simp add: current_streak_out)
    then show ?thesis using False by (auto simp: Let_def)
  qed
qed

lemma longest_streak_loop_inv:
  assumes "sorted_wrt (<) ds" and "set ds = fset S" and "i \<le> length ds"
    and "0 < i \<longrightarrow> current = current_streak_loop S (ds ! (i - 1)) 0"
    and "\<forall>j<i. current_streak_loop S (ds ! j) 0 \<le> longest"
    and "if i = 0 then longest = 0 else (\<exists>j<i. longest = current_streak_loop S (ds ! j) 0)"
  shows "(\<forall>j<length ds. current_streak_loop S (ds ! j) 0 \<le> longest_streak_loop ds i current longest)
       \<and> (if ds = [] then longest_streak_loop ds i current longest = 0
          else (\<exists>j<length ds. longest_streak_loop ds i current longest
                               = current_streak_loop S (ds ! j) 0))"
  using assms
proof (induction ds i current longest rule: longest_streak_loop.induct)
  case (1 ds i current longest)
  show ?case
  proof (cases "i < length ds")
    case False
    then have "i = length ds" using "1.prems"(3) by simp
    moreover have "longest_streak_loop ds i current longest = longest"
      using False by (simp add: longest_streak_loop.simps [of ds i])
    ultimately show ?thesis using "1.prems"(5,6) by auto
  next
    case True
    define current' where "current' =
       (if i = 0 then 1
        else (let diff = ds ! i - ds ! (i - 1) in if diff = 1 then current + 1 else 1))"
    define longest' where "longest' = max longest current'"
    have c': "current' = current_streak_loop S (ds ! i) 0"
      unfolding current'_def
      by (rule scan_step [OF "1.prems"(1) "1.prems"(2) True "1.prems"(4)])
    have unf: "longest_streak_loop ds i current longest
               = longest_streak_loop ds (i + 1) current' longest'"
      using True
      by (simp add: longest_streak_loop.simps [of ds i] current'_def longest'_def Let_def)
    have p3: "i + 1 \<le> length ds" using True by simp
    have p4: "0 < i + 1 \<longrightarrow> current' = current_streak_loop S (ds ! (i + 1 - 1)) 0"
      using c' by simp
    have p5: "\<forall>j<i + 1. current_streak_loop S (ds ! j) 0 \<le> longest'"
    proof (intro allI impI)
      fix j assume "j < i + 1"
      then have "j < i \<or> j = i" by auto
      then show "current_streak_loop S (ds ! j) 0 \<le> longest'"
        using "1.prems"(5) c' by (auto simp: longest'_def max_def)
    qed
    have p6: "if i + 1 = 0 then longest' = 0
              else (\<exists>j<i + 1. longest' = current_streak_loop S (ds ! j) 0)"
    proof -
      have "\<exists>j<i + 1. longest' = current_streak_loop S (ds ! j) 0"
      proof (cases "longest \<le> current'")
        case True
        then have "longest' = current_streak_loop S (ds ! i) 0"
          using c' by (simp add: longest'_def max_def)
        then show ?thesis by auto
      next
        case False
        then have l: "longest' = longest" by (simp add: longest'_def max_def)
        have "i \<noteq> 0"
        proof
          assume "i = 0"
          then have "longest = 0" using "1.prems"(6) by simp
          then show False using False by simp
        qed
        then obtain j where "j < i" "longest = current_streak_loop S (ds ! j) 0"
          using "1.prems"(6) by auto
        then show ?thesis using l by (intro exI [of _ j]) simp
      qed
      then show ?thesis by simp
    qed
    have "(\<forall>j<length ds. current_streak_loop S (ds ! j) 0
               \<le> longest_streak_loop ds (i + 1) current' longest')
       \<and> (if ds = [] then longest_streak_loop ds (i + 1) current' longest' = 0
          else (\<exists>j<length ds. longest_streak_loop ds (i + 1) current' longest'
                               = current_streak_loop S (ds ! j) 0))"
      by (rule "1.IH" [OF True current'_def longest'_def "1.prems"(1) "1.prems"(2) p3 p4 p5 p6])
    then show ?thesis by (simp only: unf)
  qed
qed

lemma calculate_streaks_fst:
  "fst (calculate_streaks today S) = current_streak_loop S today 0"
  by (simp add: calculate_streaks_def Let_def current_streak_out)

lemma calculate_streaks_snd:
  "(\<forall>d. d |\<in>| S \<longrightarrow> current_streak_loop S d 0 \<le> snd (calculate_streaks today S))
   \<and> (if S = {||} then snd (calculate_streaks today S) = 0
      else (\<exists>d. d |\<in>| S \<and> snd (calculate_streaks today S) = current_streak_loop S d 0))"
proof (cases "S = {||}")
  case True
  then show ?thesis by (simp add: calculate_streaks_def)
next
  case False
  define ds where "ds = sorted_list_of_fset S"
  have ss: "sorted_wrt (<) ds"
    by (simp add: ds_def sorted_list_of_fset.rep_eq)
  have st: "set ds = fset S" by (simp add: ds_def)
  have ne: "ds \<noteq> []" using False st by auto
  have L: "snd (calculate_streaks today S) = longest_streak_loop ds 0 0 0"
    using False by (simp add: calculate_streaks_def Let_def ds_def)
  have inv: "(\<forall>j<length ds. current_streak_loop S (ds ! j) 0 \<le> longest_streak_loop ds 0 0 0)
       \<and> (if ds = [] then longest_streak_loop ds 0 0 0 = 0
          else (\<exists>j<length ds. longest_streak_loop ds 0 0 0
                               = current_streak_loop S (ds ! j) 0))"
    by (rule longest_streak_loop_inv [OF ss st]) simp_all
  have a: "\<forall>d. d |\<in>| S \<longrightarrow> current_streak_loop S d 0 \<le> longest_streak_loop ds 0 0 0"
  proof (intro allI impI)
    fix d assume "d |\<in>| S"
    then have "d \<in> set ds" using st by simp
    then obtain j where "j < length ds" "ds ! j = d" by (auto simp: in_set_conv_nth)
    then show "current_streak_loop S d 0 \<le> longest_streak_loop ds 0 0 0"
      using inv by auto
  qed
  obtain j where j: "j < length ds"
      "longest_streak_loop ds 0 0 0 = current_streak_loop S (ds ! j) 0"
    using inv ne by auto
  have "ds ! j |\<in>| S" using j(1) st by (metis nth_mem)
  then have b: "\<exists>d. d |\<in>| S \<and> longest_streak_loop ds 0 0 0 = current_streak_loop S d 0"
    using j(2) by blast
  show ?thesis using a b False by (simp add: L)
qed

lemma longest_bounds_runs:
  assumes "run_ending_at S d n"
  shows "n \<le> snd (calculate_streaks today S)"
proof (cases n)
  case 0
  then show ?thesis by simp
next
  case (Suc m)
  then have "0 \<in> {0..<n}" by simp
  then have "d - int 0 |\<in>| S" using assms unfolding run_ending_at_def by blast
  then have "d |\<in>| S" by simp
  then have "current_streak_loop S d 0 \<le> snd (calculate_streaks today S)"
    using calculate_streaks_snd [of S today] by blast
  then show ?thesis using run_le_current_streak [OF assms] by simp
qed

lemma longest_is_run:
  "\<exists>d. run_ending_at S d (snd (calculate_streaks today S))"
proof (cases "S = {||}")
  case True
  then show ?thesis by (simp add: calculate_streaks_def run_ending_at_def)
next
  case False
  then obtain d where "snd (calculate_streaks today S) = current_streak_loop S d 0"
    using calculate_streaks_snd [of S today] by auto
  then show ?thesis using current_streak_run [of S d] by auto
qed

lemma streaks_ordered:
  "fst (calculate_streaks today S) \<le> snd (calculate_streaks today S)"
proof -
  have "run_ending_at S today (fst (calculate_streaks today S))"
    using current_streak_run [of S today] by (simp add: calculate_streaks_fst)
  then show ?thesis by (rule longest_bounds_runs)
qed

text \<open>
  Claim C2. The current streak is the number of consecutive calendar days ending at today
  that are all completed (the days \<open>today\<close>, \<open>today - 1\<close>, ... counted are completed and
  the next one back is not), and it is 0 when today is not completed. The longest streak is
  the length of the longest run of consecutive completed dates: some run has that length
  and no run is longer. On the empty set both are 0.
\<close>

theorem calculate_streaks_spec:
  assumes "calculate_streaks today completed_dates = (cur, longest)"
  shows "run_ending_at completed_dates today cur
       \<and> today - int cur |\<notin>| completed_dates
       \<and> (today |\<notin>| completed_dates \<longrightarrow> cur = 0)
       \<and> (\<exists>d. run_ending_at completed_dates d longest)
       \<and> (\<forall>d n. run_ending_at completed_dates d n \<longrightarrow> n \<le> longest)
       \<and> (completed_dates = {||} \<longrightarrow> cur = 0 \<and> longest = 0)"
proof -
  have c: "cur = current_streak_loop completed_dates today 0"
    using assms calculate_streaks_fst [of today completed_dates] by simp
  have l: "longest = snd (calculate_streaks today completed_dates)"
    using assms by simp
  have 1: "run_ending_at completed_dates today cur \<and> today - int cur |\<notin>| completed_dates"
    unfolding c by (rule current_streak_run)
  have 2: "today |\<notin>| completed_dates \<longrightarrow> cur = 0"
    unfolding c by (simp add: current_streak_out)
  have 3: "\<exists>d. run_ending_at completed_dates d longest"
    unfolding l by (rule longest_is_run)
  have 4: "\<forall>d n. run_ending_at completed_dates d n \<longrightarrow> n \<le> longest"
    unfolding l using longest_bounds_runs by blast
  have 5: "completed_dates = {||} \<longrightarrow> cur = 0 \<and> longest = 0"
    using assms by (auto simp: calculate_streaks_def)
  show ?thesis using 1 2 3 4 5 by blast
qed

theorem calculate_streaks_spec_witness:
  "calculate_streaks 12 {|10, 11, 12, 14, 7, 6, 5, 4|} = (3, 4)
   \<and> run_ending_at {|10, 11, 12, 14, 7, 6, 5, 4|} 12 3
   \<and> 9 |\<notin>| {|10, 11, 12, 14, 7, 6, 5, 4::int|}
   \<and> (\<exists>d. run_ending_at {|10, 11, 12, 14, 7, 6, 5, 4|} d 4)
   \<and> \<not> run_ending_at {|10, 11, 12, 14, 7, 6, 5, 4|} 7 5"
proof -
  have e: "calculate_streaks 12 {|10, 11, 12, 14, 7, 6, 5, 4|} = (3, 4)"
    by code_simp
  note r = calculate_streaks_spec [OF e]
  have "\<not> run_ending_at {|10, 11, 12, 14, 7, 6, 5, 4|} 7 5"
  proof
    assume "run_ending_at {|10, 11, 12, 14, 7, 6, 5, 4|} 7 5"
    then have "(5::nat) \<le> 4" using r by blast
    then show False by simp
  qed
  then show ?thesis
    using e r by simp
qed

section \<open>Completed dates and values\<close>

lemma set_filter_logs_by_date:
  "set (filter_logs_by_date logs ws we) = {entry \<in> set logs. in_window ws we entry}"
  by (auto simp: filter_logs_by_date_def in_window_def split: option.splits)

lemma filter_logs_by_date_eq:
  "filter_logs_by_date logs ws we = filter (in_window ws we) logs"
  by (cases ws; cases we) (auto simp: filter_logs_by_date_def in_window_def intro: filter_cong)

lemma boolean_fold:
  "fset (fold (\<lambda>log completed_dates.
             (case log_value log of
                None \<Rightarrow> completed_dates
              | Some v \<Rightarrow> if v \<ge> 1 then finsert (log_date log) completed_dates
                          else completed_dates)) xs A)
   = fset A \<union> log_date ` {entry \<in> set xs. \<exists>v. log_value entry = Some v \<and> v \<ge> 1}"
  by (induction xs arbitrary: A) (auto split: option.splits)

lemma boolean_completed_dates_set:
  "fset (boolean_completed_dates xs)
   = log_date ` {entry \<in> set xs. \<exists>v. log_value entry = Some v \<and> v \<ge> 1}"
  by (simp add: boolean_completed_dates_def boolean_fold)

lemma numeric_fold:
  "fold (\<lambda>log (completed_dates, vals).
             (case log_value log of
                None \<Rightarrow> (completed_dates, vals)
              | Some v \<Rightarrow>
                  (let vals' = vals @ [v]
                   in (case goal habit of
                         Some g \<Rightarrow> if v \<ge> g then (finsert (log_date log) completed_dates, vals')
                                   else (completed_dates, vals')
                       | None \<Rightarrow> if v > 0 then (finsert (log_date log) completed_dates, vals')
                                 else (completed_dates, vals'))))) xs (A, vs)
   = (A |\<union>| fset_of_list (map log_date (filter (numeric_ok habit) xs)),
      vs @ List.map_filter log_value xs)"
proof (induction xs arbitrary: A vs)
  case Nil
  then show ?case by (simp add: List.map_filter_simps)
next
  case (Cons x xs)
  show ?case
    by (cases "log_value x"; cases "goal habit")
       (auto simp: Cons.IH List.map_filter_simps numeric_ok_def Let_def)
qed

lemma numeric_collect_eq:
  "numeric_collect habit xs
   = (fset_of_list (map log_date (filter (numeric_ok habit) xs)), List.map_filter log_value xs)"
  by (simp add: numeric_collect_def numeric_fold)

lemma habit_statistics_eq:
  "habit_statistics today habit logs ws we =
     Inr (case habit_type habit of
            BOOLEAN \<Rightarrow> boolean_calculate today habit logs ws we
          | NUMERIC \<Rightarrow> numeric_calculate today habit logs ws we)"
  by (cases "habit_type habit")
     (simp_all add: habit_statistics_def get_calculator_def calculators_def)

lemma boolean_rule:
  "habit_type habit = BOOLEAN \<Longrightarrow>
   (\<exists>v. log_value entry = Some v \<and> v \<ge> 1) = completes habit entry"
  by (cases "log_value entry") (simp_all add: completes_def)

lemma numeric_rule:
  "habit_type habit = NUMERIC \<Longrightarrow> numeric_ok habit entry = completes habit entry"
  by (cases "log_value entry") (simp_all add: completes_def numeric_ok_def)

lemma completed_boolean:
  assumes "habit_type habit = BOOLEAN"
  shows "fset (boolean_completed_dates (filter_logs_by_date logs ws we))
         = {d. \<exists>entry\<in>set logs. log_date entry = d \<and> in_window ws we entry \<and> completes habit entry}"
proof -
  have "fset (boolean_completed_dates (filter_logs_by_date logs ws we))
        = log_date ` {entry \<in> set logs. in_window ws we entry \<and> completes habit entry}"
    by (simp add: boolean_completed_dates_set set_filter_logs_by_date
                  boolean_rule [OF assms])
  also have "\<dots> = {d. \<exists>entry\<in>set logs. log_date entry = d \<and> in_window ws we entry
                         \<and> completes habit entry}"
    by auto
  finally show ?thesis .
qed

lemma completed_numeric:
  assumes "habit_type habit = NUMERIC"
  shows "fset (fst (numeric_collect habit (filter_logs_by_date logs ws we)))
         = {d. \<exists>entry\<in>set logs. log_date entry = d \<and> in_window ws we entry \<and> completes habit entry}"
proof -
  have "fset (fst (numeric_collect habit (filter_logs_by_date logs ws we)))
        = log_date ` {entry \<in> set (filter_logs_by_date logs ws we). numeric_ok habit entry}"
    by (auto simp: numeric_collect_eq fset_of_list.rep_eq)
  also have "\<dots> = log_date ` {entry \<in> set logs. in_window ws we entry \<and> completes habit entry}"
    by (simp add: set_filter_logs_by_date numeric_rule [OF assms])
  also have "\<dots> = {d. \<exists>entry\<in>set logs. log_date entry = d \<and> in_window ws we entry
                         \<and> completes habit entry}"
    by auto
  finally show ?thesis .
qed

lemma boolean_calculate_fields:
  "boolean_calculate today habit logs ws we =
     \<lparr>current_streak = fst (calculate_streaks today (boolean_completed_dates (filter_logs_by_date logs ws we))),
      longest_streak = snd (calculate_streaks today (boolean_completed_dates (filter_logs_by_date logs ws we))),
      total_completions = fcard (boolean_completed_dates (filter_logs_by_date logs ws we)),
      completion_rate =
        (if 0 < length (filter_logs_by_date logs ws we)
         then real (fcard (boolean_completed_dates (filter_logs_by_date logs ws we)))
              / real (length (filter_logs_by_date logs ws we))
         else 0),
      average_value = None,
      total_days_tracked = length (filter_logs_by_date logs ws we)\<rparr>"
  by (simp add: boolean_calculate_def Let_def case_prod_beta)

lemma numeric_calculate_fields:
  "numeric_calculate today habit logs ws we =
     \<lparr>current_streak = fst (calculate_streaks today (fst (numeric_collect habit (filter_logs_by_date logs ws we)))),
      longest_streak = snd (calculate_streaks today (fst (numeric_collect habit (filter_logs_by_date logs ws we)))),
      total_completions = fcard (fst (numeric_collect habit (filter_logs_by_date logs ws we))),
      completion_rate =
        (if 0 < length (filter_logs_by_date logs ws we)
         then real (fcard (fst (numeric_collect habit (filter_logs_by_date logs ws we))))
              / real (length (filter_logs_by_date logs ws we))
         else 0),
      average_value =
        (if snd (numeric_collect habit (filter_logs_by_date logs ws we)) \<noteq> []
         then Some (sum_list (snd (numeric_collect habit (filter_logs_by_date logs ws we)))
                    / real (length (snd (numeric_collect habit (filter_logs_by_date logs ws we)))))
         else None),
      total_days_tracked = length (filter_logs_by_date logs ws we)\<rparr>"
  by (simp add: numeric_calculate_def Let_def case_prod_beta)

lemma numeric_values:
  "snd (numeric_collect habit xs) = List.map_filter log_value xs"
  by (simp add: numeric_collect_eq)

text \<open>The completed dates the calculator of the habit's type collects.\<close>

lemma statistics_of_completed:
  "\<exists>C. fset C = {d. \<exists>entry\<in>set logs. log_date entry = d \<and> in_window ws we entry \<and> completes habit entry}
     \<and> habit_statistics today habit logs ws we =
         Inr \<lparr>current_streak = fst (calculate_streaks today C),
              longest_streak = snd (calculate_streaks today C),
              total_completions = fcard C,
              completion_rate =
                (if 0 < length (filter (in_window ws we) logs)
                 then real (fcard C) / real (length (filter (in_window ws we) logs)) else 0),
              average_value =
                (case habit_type habit of
                   BOOLEAN \<Rightarrow> None
                 | NUMERIC \<Rightarrow>
                     (if List.map_filter log_value (filter (in_window ws we) logs) \<noteq> []
                      then Some (sum_list (List.map_filter log_value (filter (in_window ws we) logs))
                            / real (length (List.map_filter log_value (filter (in_window ws we) logs))))
                      else None)),
              total_days_tracked = length (filter (in_window ws we) logs)\<rparr>"
proof (cases "habit_type habit")
  case BOOLEAN
  show ?thesis
    by (rule exI [of _ "boolean_completed_dates (filter_logs_by_date logs ws we)"])
       (simp add: completed_boolean [OF BOOLEAN] habit_statistics_eq BOOLEAN
                  boolean_calculate_fields filter_logs_by_date_eq [symmetric])
next
  case NUMERIC
  show ?thesis
    by (rule exI [of _ "fst (numeric_collect habit (filter_logs_by_date logs ws we))"])
       (simp add: completed_numeric [OF NUMERIC] habit_statistics_eq NUMERIC
                  numeric_calculate_fields filter_logs_by_date_eq [symmetric]
                  numeric_values)
qed

lemma completed_card_le:
  assumes "fset C = {d. \<exists>entry\<in>set logs. log_date entry = d \<and> in_window ws we entry \<and> completes habit entry}"
  shows "fcard C \<le> length (filter (in_window ws we) logs)"
proof -
  have "fset C \<subseteq> log_date ` set (filter (in_window ws we) logs)"
    using assms by auto
  then have "card (fset C) \<le> card (log_date ` set (filter (in_window ws we) logs))"
    by (intro card_mono) simp_all
  also have "\<dots> \<le> card (set (filter (in_window ws we) logs))"
    by (intro card_image_le) simp
  also have "\<dots> \<le> length (filter (in_window ws we) logs)"
    by (rule card_length)
  finally show ?thesis by (simp add: fcard.rep_eq)
qed

section \<open>Statistics\<close>

lemma statistics_result:
  "\<exists>r C. habit_statistics today habit logs ws we = Inr r
     \<and> fset C = {d. \<exists>entry\<in>set logs. log_date entry = d \<and> in_window ws we entry
                                   \<and> completes habit entry}
     \<and> current_streak r = fst (calculate_streaks today C)
     \<and> longest_streak r = snd (calculate_streaks today C)
     \<and> total_completions r = fcard C
     \<and> total_days_tracked r = length (filter (in_window ws we) logs)
     \<and> completion_rate r =
           (if 0 < length (filter (in_window ws we) logs)
            then real (fcard C) / real (length (filter (in_window ws we) logs)) else 0)
     \<and> average_value r =
           (case habit_type habit of
              BOOLEAN \<Rightarrow> None
            | NUMERIC \<Rightarrow>
                (if List.map_filter log_value (filter (in_window ws we) logs) \<noteq> []
                 then Some (sum_list (List.map_filter log_value (filter (in_window ws we) logs))
                       / real (length (List.map_filter log_value (filter (in_window ws we) logs))))
                 else None))"
proof -
  obtain C where C: "fset C = {d. \<exists>entry\<in>set logs. log_date entry = d \<and> in_window ws we entry
                                   \<and> completes habit entry}"
    and eq: "habit_statistics today habit logs ws we =
         Inr \<lparr>current_streak = fst (calculate_streaks today C),
              longest_streak = snd (calculate_streaks today C),
              total_completions = fcard C,
              completion_rate =
                (if 0 < length (filter (in_window ws we) logs)
                 then real (fcard C) / real (length (filter (in_window ws we) logs)) else 0),
              average_value =
                (case habit_type habit of
                   BOOLEAN \<Rightarrow> None
                 | NUMERIC \<Rightarrow>
                     (if List.map_filter log_value (filter (in_window ws we) logs) \<noteq> []
                      then Some (sum_list (List.map_filter log_value (filter (in_window ws we) logs))
                            / real (length (List.map_filter log_value (filter (in_window ws we) logs))))
                      else None)),
              total_days_tracked = length (filter (in_window ws we) logs)\<rparr>"
    using statistics_of_completed [of logs ws we habit today] by blast
  define r where "r = projr (habit_statistics today habit logs ws we)"
  have r: "habit_statistics today habit logs ws we = Inr r"
    by (simp add: r_def eq)
  have "current_streak r = fst (calculate_streaks today C)"
       "longest_streak r = snd (calculate_streaks today C)"
       "total_completions r = fcard C"
       "total_days_tracked r = length (filter (in_window ws we) logs)"
       "completion_rate r =
           (if 0 < length (filter (in_window ws we) logs)
            then real (fcard C) / real (length (filter (in_window ws we) logs)) else 0)"
       "average_value r =
           (case habit_type habit of
              BOOLEAN \<Rightarrow> None
            | NUMERIC \<Rightarrow>
                (if List.map_filter log_value (filter (in_window ws we) logs) \<noteq> []
                 then Some (sum_list (List.map_filter log_value (filter (in_window ws we) logs))
                       / real (length (List.map_filter log_value (filter (in_window ws we) logs))))
                 else None))"
    by (simp_all add: r_def eq)
  then show ?thesis using r C by blast
qed

text \<open>
  Claim C1. After the logs are filtered to the window, a date is among the completed dates
  exactly when some entry of that date in the window carries a value that satisfies the
  rule of the habit's type (at least 1.0 for a boolean habit, at least the goal for a
  numeric habit with a goal, positive for a numeric habit without one). The completed
  dates are a set: \<open>total_completions\<close> is the number of distinct such dates.
\<close>

theorem completion_rule:
  "(habit_type habit = BOOLEAN \<longrightarrow>
      (d |\<in>| boolean_completed_dates (filter_logs_by_date logs wstart wend))
      = (\<exists>entry\<in>set logs. log_date entry = d \<and> in_window wstart wend entry
                           \<and> completes habit entry))
 \<and> (habit_type habit = NUMERIC \<longrightarrow>
      (d |\<in>| fst (numeric_collect habit (filter_logs_by_date logs wstart wend)))
      = (\<exists>entry\<in>set logs. log_date entry = d \<and> in_window wstart wend entry
                           \<and> completes habit entry))
 \<and> (\<exists>r. habit_statistics today habit logs wstart wend = Inr r
        \<and> total_completions r
            = card {d. \<exists>entry\<in>set logs. log_date entry = d \<and> in_window wstart wend entry
                                        \<and> completes habit entry})"
proof (intro conjI impI)
  assume "habit_type habit = BOOLEAN"
  then show "(d |\<in>| boolean_completed_dates (filter_logs_by_date logs wstart wend))
      = (\<exists>entry\<in>set logs. log_date entry = d \<and> in_window wstart wend entry
                           \<and> completes habit entry)"
    using completed_boolean [of habit logs wstart wend] by simp
next
  assume "habit_type habit = NUMERIC"
  then show "(d |\<in>| fst (numeric_collect habit (filter_logs_by_date logs wstart wend)))
      = (\<exists>entry\<in>set logs. log_date entry = d \<and> in_window wstart wend entry
                           \<and> completes habit entry)"
    using completed_numeric [of habit logs wstart wend] by simp
next
  show "\<exists>r. habit_statistics today habit logs wstart wend = Inr r
        \<and> total_completions r
            = card {d. \<exists>entry\<in>set logs. log_date entry = d \<and> in_window wstart wend entry
                                        \<and> completes habit entry}"
    using statistics_result [of today habit logs wstart wend]
    by (metis fcard.rep_eq)
qed

theorem completion_rule_witness:
  "habit_type example_boolean_habit = BOOLEAN
   \<and> 100 |\<in>| boolean_completed_dates (filter_logs_by_date example_boolean_logs (Some 90) None)
   \<and> (\<exists>entry\<in>set example_boolean_logs. log_date entry = 100 \<and> in_window (Some 90) None entry
          \<and> completes example_boolean_habit entry)
   \<and> habit_type example_numeric_habit = NUMERIC
   \<and> 98 |\<notin>| fst (numeric_collect example_numeric_habit
                     (filter_logs_by_date example_numeric_logs None None))
   \<and> \<not> (\<exists>entry\<in>set example_numeric_logs. log_date entry = 98 \<and> in_window None None entry
          \<and> completes example_numeric_habit entry)
   \<and> total_completions
        (projr (habit_statistics 100 example_boolean_habit example_boolean_logs (Some 90) None))
       = 1"
proof -
  have t: "total_completions
        (projr (habit_statistics 100 example_boolean_habit example_boolean_logs (Some 90) None))
       = 1"
    by code_simp
  have b: "habit_type example_boolean_habit = BOOLEAN"
    by (simp add: example_boolean_habit_def)
  have n: "habit_type example_numeric_habit = NUMERIC"
    by (simp add: example_numeric_habit_def)
  have m: "100 |\<in>| boolean_completed_dates (filter_logs_by_date example_boolean_logs (Some 90) None)"
    by code_simp
  have k: "98 |\<notin>| fst (numeric_collect example_numeric_habit
                     (filter_logs_by_date example_numeric_logs None None))"
    by code_simp
  show ?thesis
    using b n m k t
      completion_rule [of example_boolean_habit 100 example_boolean_logs "Some 90" None 100]
      completion_rule [of example_numeric_habit 98 example_numeric_logs None None 100]
    by simp
qed

text \<open>
  Claim C3. For every habit, log list and window the statistics are computed, and the
  completion rate lies between 0 and 1; it is \<open>total_completions / total_days_tracked\<close>
  when \<open>total_days_tracked\<close> is positive and 0 when it is 0, where
  \<open>total_completions\<close> is the number of distinct completed dates and
  \<open>total_days_tracked\<close> the number of entries in the window.
\<close>

theorem completion_rate_spec:
  "\<exists>r. habit_statistics today habit logs wstart wend = Inr r
     \<and> 0 \<le> completion_rate r \<and> completion_rate r \<le> 1
     \<and> (0 < total_days_tracked r \<longrightarrow>
           completion_rate r = real (total_completions r) / real (total_days_tracked r))
     \<and> (total_days_tracked r = 0 \<longrightarrow> completion_rate r = 0)
     \<and> total_completions r
         = card {d. \<exists>entry\<in>set logs. log_date entry = d \<and> in_window wstart wend entry
                                     \<and> completes habit entry}
     \<and> total_days_tracked r = length (filter (in_window wstart wend) logs)"
proof -
  obtain r C where r: "habit_statistics today habit logs wstart wend = Inr r"
    and C: "fset C = {d. \<exists>entry\<in>set logs. log_date entry = d \<and> in_window wstart wend entry
                                   \<and> completes habit entry}"
    and tc: "total_completions r = fcard C"
    and td: "total_days_tracked r = length (filter (in_window wstart wend) logs)"
    and cr: "completion_rate r =
           (if 0 < length (filter (in_window wstart wend) logs)
            then real (fcard C) / real (length (filter (in_window wstart wend) logs)) else 0)"
    using statistics_result [of today habit logs wstart wend] by blast
  have le: "fcard C \<le> length (filter (in_window wstart wend) logs)"
    by (rule completed_card_le [OF C])
  have 1: "0 \<le> completion_rate r" by (simp add: cr)
  have 2: "completion_rate r \<le> 1" using le by (simp add: cr)
  have 3: "0 < total_days_tracked r \<longrightarrow>
           completion_rate r = real (total_completions r) / real (total_days_tracked r)"
    by (simp add: cr tc td)
  have 4: "total_days_tracked r = 0 \<longrightarrow> completion_rate r = 0"
    by (simp add: cr td)
  have 5: "total_completions r
         = card {d. \<exists>entry\<in>set logs. log_date entry = d \<and> in_window wstart wend entry
                                     \<and> completes habit entry}"
    using C by (simp add: tc fcard.rep_eq)
  show ?thesis
    by (rule exI [of _ r]) (intro conjI r 1 2 3 4 5 td)
qed

theorem completion_rate_spec_witness:
  "habit_statistics 100 example_boolean_habit example_boolean_logs (Some 90) None
     = Inr \<lparr>current_streak = 1, longest_streak = 1, total_completions = 1,
            completion_rate = 1 / 4, average_value = None, total_days_tracked = 4\<rparr>
   \<and> (\<exists>r. habit_statistics 100 example_boolean_habit example_boolean_logs (Some 90) None = Inr r
        \<and> (0 < total_days_tracked r \<longrightarrow>
              completion_rate r = real (total_completions r) / real (total_days_tracked r)))
   \<and> (\<exists>r. habit_statistics 100 example_boolean_habit [] None None = Inr r
        \<and> (total_days_tracked r = 0 \<longrightarrow> completion_rate r = 0))"
proof -
  have e: "habit_statistics 100 example_boolean_habit example_boolean_logs (Some 90) None
     = Inr \<lparr>current_streak = 1, longest_streak = 1, total_completions = 1,
            completion_rate = 1 / 4, average_value = None, total_days_tracked = 4\<rparr>"
    by code_simp
  obtain r where r: "habit_statistics 100 example_boolean_habit example_boolean_logs (Some 90) None = Inr r"
    and a: "0 < total_days_tracked r \<longrightarrow>
              completion_rate r = real (total_completions r) / real (total_days_tracked r)"
    using completion_rate_spec [of 100 example_boolean_habit example_boolean_logs "Some 90" None]
    by (elim exE conjE)
  obtain r' where r': "habit_statistics 100 example_boolean_habit [] None None = Inr r'"
    and a': "total_days_tracked r' = 0 \<longrightarrow> completion_rate r' = 0"
    using completion_rate_spec [of 100 example_boolean_habit "[]" None None]
    by (elim exE conjE)
  show ?thesis
    by (intro conjI e exI [of _ r] exI [of _ r'] r a r' a')
qed

text \<open>
  Claim C5. For a numeric habit the average is the arithmetic mean of all values present
  among the entries in the window, whether or not they satisfy the completion rule, and
  absent when no entry in the window carries a value; for a boolean habit it is always
  absent.
\<close>

theorem average_value_spec:
  "\<exists>r. habit_statistics today habit logs wstart wend = Inr r
     \<and> (habit_type habit = NUMERIC \<longrightarrow>
          average_value r =
            (let vals = List.map_filter log_value (filter (in_window wstart wend) logs)
             in if vals = [] then None else Some (sum_list vals / real (length vals))))
     \<and> (habit_type habit = BOOLEAN \<longrightarrow> average_value r = None)"
proof -
  obtain r where r: "habit_statistics today habit logs wstart wend = Inr r"
    and av: "average_value r =
           (case habit_type habit of
              BOOLEAN \<Rightarrow> None
            | NUMERIC \<Rightarrow>
                (if List.map_filter log_value (filter (in_window wstart wend) logs) \<noteq> []
                 then Some (sum_list (List.map_filter log_value (filter (in_window wstart wend) logs))
                       / real (length (List.map_filter log_value (filter (in_window wstart wend) logs))))
                 else None))"
    using statistics_result [of today habit logs wstart wend] by blast
  have "habit_type habit = NUMERIC \<longrightarrow>
          average_value r =
            (let vals = List.map_filter log_value (filter (in_window wstart wend) logs)
             in if vals = [] then None else Some (sum_list vals / real (length vals)))"
    by (simp add: av Let_def)
  moreover have "habit_type habit = BOOLEAN \<longrightarrow> average_value r = None"
    by (simp add: av)
  ultimately show ?thesis
    by (intro exI [of _ r] conjI r)
qed

theorem average_value_spec_witness:
  "habit_type example_numeric_habit = NUMERIC
   \<and> habit_type example_boolean_habit = BOOLEAN
   \<and> List.map_filter log_value (filter (in_window None None) example_numeric_logs) = [15, 12, 5]
   \<and> average_value (projr (habit_statistics 100 example_numeric_habit example_numeric_logs None None))
       = Some (32 / 3)
   \<and> average_value (projr (habit_statistics 100 example_boolean_habit example_boolean_logs None None))
       = None"
proof -
  have n: "habit_type example_numeric_habit = NUMERIC"
    by (simp add: example_numeric_habit_def)
  have b: "habit_type example_boolean_habit = BOOLEAN"
    by (simp add: example_boolean_habit_def)
  have v: "List.map_filter log_value (filter (in_window None None) example_numeric_logs)
           = [15, 12, 5]"
    by code_simp
  obtain r where r: "habit_statistics 100 example_numeric_habit example_numeric_logs None None = Inr r"
    and a: "average_value r = Some (32 / 3)"
    using average_value_spec [of 100 example_numeric_habit example_numeric_logs None None] n v
    by (elim exE conjE) (simp add: Let_def)
  obtain r' where r': "habit_statistics 100 example_boolean_habit example_boolean_logs None None = Inr r'"
    and a': "average_value r' = None"
    using average_value_spec [of 100 example_boolean_habit example_boolean_logs None None] b
    by (elim exE conjE) simp
  show ?thesis using n b v r a r' a' by simp
qed

text \<open>
  Claim C4, as amended. For every habit, log list, window and day taken as today, the
  longest streak is at least the current streak: the days counted by the current streak
  are themselves a run of completed dates.
\<close>

theorem longest_streak_ge_current:
  "\<exists>r. habit_statistics today habit logs wstart wend = Inr r
     \<and> current_streak r \<le> longest_streak r"
proof -
  obtain r C where r: "habit_statistics today habit logs wstart wend = Inr r"
    and "current_streak r = fst (calculate_streaks today C)"
    and "longest_streak r = snd (calculate_streaks today C)"
    using statistics_result [of today habit logs wstart wend] by blast
  then show ?thesis using streaks_ordered [of today C] by simp
qed

theorem longest_streak_ge_current_witness:
  "current_streak
     (projr (habit_statistics 100 example_boolean_habit example_boolean_logs None None))
   \<le> longest_streak
     (projr (habit_statistics 100 example_boolean_habit example_boolean_logs None None))"
  using longest_streak_ge_current [of 100 example_boolean_habit example_boolean_logs None None]
  by (elim exE conjE) simp

text \<open>
  Claim C4 as stated fails: no input whose window ends before today makes the longest
  streak smaller than the current one. On the five historical days in a row with no entry
  today, the current streak is 0 and the longest is 5.
\<close>

theorem longest_streak_violation_refuted:
  "\<not> (\<exists>today habit logs wstart wend r.
         (case wend of Some e \<Rightarrow> e < today | None \<Rightarrow> False)
         \<and> habit_statistics today habit logs wstart wend = Inr r
         \<and> \<not> longest_streak r \<ge> current_streak r)
   \<and> habit_statistics 100 example_boolean_habit example_historical_logs None (Some 99)
       = Inr \<lparr>current_streak = 0, longest_streak = 5, total_completions = 5,
              completion_rate = 1, average_value = None, total_days_tracked = 5\<rparr>"
proof
  show "\<not> (\<exists>today habit logs wstart wend r.
         (case wend of Some e \<Rightarrow> e < today | None \<Rightarrow> False)
         \<and> habit_statistics today habit logs wstart wend = Inr r
         \<and> \<not> longest_streak r \<ge> current_streak r)"
  proof
    assume "\<exists>today habit logs wstart wend r.
         (case wend of Some e \<Rightarrow> e < today | None \<Rightarrow> False)
         \<and> habit_statistics today habit logs wstart wend = Inr r
         \<and> \<not> longest_streak r \<ge> current_streak r"
    then obtain today habit logs wstart wend r
      where r: "habit_statistics today habit logs wstart wend = Inr r"
        and bad: "\<not> longest_streak r \<ge> current_streak r"
      by blast
    obtain r' C where r': "habit_statistics today habit logs wstart wend = Inr r'"
      and "current_streak r' = fst (calculate_streaks today C)"
      and "longest_streak r' = snd (calculate_streaks today C)"
      using statistics_result [of today habit logs wstart wend] by blast
    then have "current_streak r' \<le> longest_streak r'"
      using streaks_ordered [of today C] by simp
    then show False using r r' bad by simp
  qed
next
  show "habit_statistics 100 example_boolean_habit example_historical_logs None (Some 99)
       = Inr \<lparr>current_streak = 0, longest_streak = 5, total_completions = 5,
              completion_rate = 1, average_value = None, total_days_tracked = 5\<rparr>"
    by code_simp
qed

section \<open>Cascading delete\<close>

lemma shrinks_refl: "shrinks svc svc"
  by (simp add: shrinks_def)

lemma shrinks_trans: "shrinks a b \<Longrightarrow> shrinks b c \<Longrightarrow> shrinks a c"
  unfolding shrinks_def by metis

lemma shrinks_delete:
  "shrinks svc (svc\<lparr>habit_repo := habits_delete (habit_repo svc) hid\<rparr>)"
  by (simp add: shrinks_def habits_delete_def)

lemma shrinks_absent: "shrinks svc svc' \<Longrightarrow> habit_repo svc k = None \<Longrightarrow> habit_repo svc' k = None"
  unfolding shrinks_def by metis

text \<open>Deleting only removes habits.\<close>

lemma delete_subhabits_shrinks_step:
  assumes "\<And>hid svc. shrinks svc (snd (delete_habit depth hid svc))"
  shows "shrinks svc (snd (delete_subhabits depth ids svc))"
proof (induction ids arbitrary: svc)
  case Nil
  show ?case by (simp add: shrinks_refl)
next
  case (Cons c rest)
  obtain r s1 where d: "delete_habit depth c svc = (r, s1)" by (cases "delete_habit depth c svc")
  have s1: "shrinks svc s1" using assms [of svc c] d by simp
  show ?case
  proof (cases r)
    case (Inl e)
    then show ?thesis using d s1 by simp
  next
    case (Inr u)
    then have "delete_subhabits depth (c # rest) svc = delete_subhabits depth rest s1"
      using d by simp
    then show ?thesis using shrinks_trans [OF s1 Cons.IH [of s1]] by simp
  qed
qed

lemma delete_habit_shrinks: "shrinks svc (snd (delete_habit depth hid svc))"
proof (induction depth arbitrary: hid svc)
  case 0
  show ?case by (simp add: shrinks_refl)
next
  case (Suc depth)
  show ?case
  proof (cases "habits_get (habit_repo svc) hid")
    case None
    then show ?thesis by (simp add: shrinks_refl)
  next
    case (Some habit)
    obtain r s1 where d: "delete_subhabits depth (subhabit_ids habit) svc = (r, s1)"
      by (cases "delete_subhabits depth (subhabit_ids habit) svc")
    have s1: "shrinks svc s1"
      using delete_subhabits_shrinks_step [of depth svc "subhabit_ids habit"] Suc.IH d by simp
    show ?thesis
    proof (cases r)
      case (Inl e)
      then show ?thesis using Some d s1 by simp
    next
      case (Inr u)
      then show ?thesis
        using Some d shrinks_trans [OF s1 shrinks_delete [of s1 hid]] by simp
    qed
  qed
qed

lemma delete_subhabits_shrinks: "shrinks svc (snd (delete_subhabits depth ids svc))"
  by (rule delete_subhabits_shrinks_step) (rule delete_habit_shrinks)

text \<open>A call that returns has removed what it was asked to remove.\<close>

lemma delete_habit_removes:
  assumes "delete_habit depth hid svc = (Inr u, svc')"
  shows "habit_repo svc' hid = None"
proof (cases depth)
  case 0
  then show ?thesis using assms by simp
next
  case (Suc d)
  show ?thesis
  proof (cases "habits_get (habit_repo svc) hid")
    case None
    then show ?thesis using assms Suc by simp
  next
    case (Some habit)
    obtain r s1 where d: "delete_subhabits d (subhabit_ids habit) svc = (r, s1)"
      by (cases "delete_subhabits d (subhabit_ids habit) svc")
    show ?thesis
      using assms Suc Some d by (cases r) (auto simp: habits_delete_def)
  qed
qed

lemma delete_subhabits_removes:
  assumes "delete_subhabits depth ids svc = (Inr u, svc')"
  shows "\<forall>c\<in>set ids. habit_repo svc' c = None"
  using assms
proof (induction ids arbitrary: svc)
  case Nil
  then show ?case by simp
next
  case (Cons c rest)
  obtain r s1 where d: "delete_habit depth c svc = (r, s1)" by (cases "delete_habit depth c svc")
  show ?case
  proof (cases r)
    case (Inl e)
    then show ?thesis using Cons.prems d by simp
  next
    case (Inr v)
    then have rest: "delete_subhabits depth rest s1 = (Inr u, svc')"
      using Cons.prems d by simp
    have "habit_repo s1 c = None"
      using d Inr delete_habit_removes by blast
    moreover have "shrinks s1 svc'"
      using delete_subhabits_shrinks [of s1 depth rest] rest by simp
    ultimately have "habit_repo svc' c = None" by (rule shrinks_absent [rotated])
    then show ?thesis using Cons.IH [OF rest] by simp
  qed
qed

lemma delete_subhabits_append:
  "delete_subhabits depth (xs @ ys) svc =
     (case delete_subhabits depth xs svc of
        (Inl e, svc') \<Rightarrow> (Inl e, svc')
      | (Inr u, svc') \<Rightarrow> delete_subhabits depth ys svc')"
proof (induction xs arbitrary: svc)
  case Nil
  show ?case by simp
next
  case (Cons c rest)
  obtain r s1 where d: "delete_habit depth c svc = (r, s1)" by (cases "delete_habit depth c svc")
  show ?case using d Cons.IH by (cases r) simp_all
qed

lemma delete_habit_absent:
  assumes "habit_repo svc x = None"
  shows "delete_habit depth x svc =
           (Inl (case depth of 0 \<Rightarrow> RecursionError | Suc d \<Rightarrow> ValueError ''Habit not found''), svc)"
  using assms by (cases depth) (simp_all add: habits_get_def)

text \<open>A habit that lists an absent id survives every cascade, and a cascade that has to
  delete it does not return.\<close>

lemma delete_subhabits_dangling_step:
  assumes step: "\<And>k svc. habit_repo svc hid = Some h \<Longrightarrow> habit_repo svc x = None \<Longrightarrow>
            habit_repo (snd (delete_habit depth k svc)) hid = Some h"
    and h: "habit_repo svc hid = Some h" and x: "habit_repo svc x = None"
  shows "habit_repo (snd (delete_subhabits depth ids svc)) hid = Some h
       \<and> (x \<in> set ids \<longrightarrow> isl (fst (delete_subhabits depth ids svc)))"
  using h x
proof (induction ids arbitrary: svc)
  case Nil
  then show ?case by simp
next
  case (Cons c rest)
  obtain r s1 where d: "delete_habit depth c svc = (r, s1)" by (cases "delete_habit depth c svc")
  have h1: "habit_repo s1 hid = Some h"
    using step [OF Cons.prems, of c] d by simp
  have x1: "habit_repo s1 x = None"
    using delete_habit_shrinks [of svc depth c] d Cons.prems(2) shrinks_absent by fastforce
  show ?case
  proof (cases r)
    case (Inl e)
    then show ?thesis using d h1 by simp
  next
    case (Inr u)
    then have eq: "delete_subhabits depth (c # rest) svc = delete_subhabits depth rest s1"
      using d by simp
    have "c \<noteq> x"
    proof
      assume "c = x"
      then have "isl (fst (delete_habit depth c svc))"
        using delete_habit_absent [OF Cons.prems(2), of depth] by simp
      then show False using d Inr by simp
    qed
    then show ?thesis unfolding eq using Cons.IH [OF h1 x1] by simp
  qed
qed

lemma delete_habit_dangling:
  assumes "habit_repo svc hid = Some h" and "x \<in> set (subhabit_ids h)"
    and "habit_repo svc x = None"
  shows "habit_repo (snd (delete_habit depth k svc)) hid = Some h"
  using assms(1,3)
proof (induction depth arbitrary: k svc)
  case 0
  then show ?case by simp
next
  case (Suc depth)
  show ?case
  proof (cases "habits_get (habit_repo svc) k")
    case None
    then show ?thesis using Suc.prems by simp
  next
    case (Some hk)
    obtain r s1 where d: "delete_subhabits depth (subhabit_ids hk) svc = (r, s1)"
      by (cases "delete_subhabits depth (subhabit_ids hk) svc")
    have st: "habit_repo s1 hid = Some h \<and> (x \<in> set (subhabit_ids hk) \<longrightarrow> isl r)"
      using delete_subhabits_dangling_step [of hid h x depth svc "subhabit_ids hk"]
        Suc.IH Suc.prems d by simp
    show ?thesis
    proof (cases r)
      case (Inl e)
      then show ?thesis using Some d st by simp
    next
      case (Inr u)
      then have "x \<notin> set (subhabit_ids hk)" using st by auto
      then have "hk \<noteq> h" using assms(2) by auto
      then have "k \<noteq> hid" using Some Suc.prems(1) by (auto simp: habits_get_def)
      then show ?thesis using Some d Inr st by (simp add: habits_delete_def)
    qed
  qed
qed

text \<open>The subtree of a habit: what it contains, and what it depends on.\<close>

lemma subtree_ids_stored:
  "subtree_ids depth s hid = Some ids \<Longrightarrow> hid \<in> set ids \<and> (\<forall>k\<in>set ids. s k \<noteq> None)"
  "forest_ids depth s cs = Some ids \<Longrightarrow> set cs \<subseteq> set ids \<and> (\<forall>k\<in>set ids. s k \<noteq> None)"
proof (induction depth s hid and depth s cs arbitrary: ids and ids
       rule: subtree_ids_forest_ids.induct)
  case (1 storage hid)
  then show ?case by simp
next
  case (2 depth storage hid)
  then show ?case by (fastforce split: option.splits)
next
  case (3 depth storage)
  then show ?case by simp
next
  case (4 depth storage c rest)
  then show ?case by (fastforce split: option.splits)
qed

lemma subtree_ids_agree:
  "subtree_ids depth s hid = Some ids \<Longrightarrow> (\<forall>k\<in>set ids. s' k = s k)
     \<Longrightarrow> subtree_ids depth s' hid = Some ids"
  "forest_ids depth s cs = Some ids \<Longrightarrow> (\<forall>k\<in>set ids. s' k = s k)
     \<Longrightarrow> forest_ids depth s' cs = Some ids"
proof (induction depth s hid and depth s cs arbitrary: ids and ids
       rule: subtree_ids_forest_ids.induct)
  case (1 storage hid)
  then show ?case by simp
next
  case (2 depth storage hid)
  then show ?case by (fastforce split: option.splits)
next
  case (3 depth storage)
  then show ?case by simp
next
  case (4 depth storage c rest)
  then show ?case by (fastforce split: option.splits)
qed

lemma forest_ids_restrict:
  assumes "forest_ids depth s cs = Some ids" and "set ids \<inter> X = {}"
  shows "forest_ids depth (s |` (- X)) cs = Some ids"
  by (rule subtree_ids_agree(2) [OF assms(1)])
     (use assms(2) in \<open>auto simp: restrict_map_def\<close>)

lemma forest_ids_unrestrict:
  assumes "forest_ids depth (s |` (- X)) cs = Some ids"
  shows "forest_ids depth s cs = Some ids \<and> set ids \<inter> X = {}"
proof -
  have st: "\<forall>k\<in>set ids. (s |` (- X)) k \<noteq> None"
    using subtree_ids_stored(2) [OF assms] by simp
  then have disj: "set ids \<inter> X = {}"
    by (auto simp: restrict_map_def split: if_splits)
  then have "\<forall>k\<in>set ids. s k = (s |` (- X)) k"
    by (auto simp: restrict_map_def)
  then show ?thesis using subtree_ids_agree(2) [OF assms] disj by simp
qed

lemma subtree_ids_Suc:
  "subtree_ids depth s hid = Some ids \<Longrightarrow> subtree_ids (Suc depth) s hid = Some ids"
  "forest_ids depth s cs = Some ids \<Longrightarrow> forest_ids (Suc depth) s cs = Some ids"
proof (induction depth s hid and depth s cs arbitrary: ids and ids
       rule: subtree_ids_forest_ids.induct)
  case (1 storage hid)
  then show ?case by simp
next
  case (2 depth storage hid)
  then show ?case by (fastforce split: option.splits)
next
  case (3 depth storage)
  then show ?case by simp
next
  case (4 depth storage c rest)
  then show ?case by (fastforce split: option.splits)
qed

lemma subtree_ids_inside:
  "subtree_ids depth s hid = Some ids \<Longrightarrow> k \<in> set ids
     \<Longrightarrow> \<exists>sub. subtree_ids depth s k = Some sub \<and> length sub \<le> length ids
           \<and> set sub \<subseteq> set ids"
  "forest_ids depth s cs = Some ids \<Longrightarrow> k \<in> set ids
     \<Longrightarrow> \<exists>sub. subtree_ids depth s k = Some sub \<and> length sub \<le> length ids
           \<and> set sub \<subseteq> set ids"
proof (induction depth s hid and depth s cs arbitrary: ids and ids
       rule: subtree_ids_forest_ids.induct)
  case (1 storage hid)
  then show ?case by simp
next
  case (2 depth storage hid)
  from "2.prems"(1) obtain habit below where h: "storage hid = Some habit"
    and below: "forest_ids depth storage (subhabit_ids habit) = Some below"
    and ids: "ids = hid # below"
    by (auto split: option.splits)
  show ?case
  proof (cases "k = hid")
    case True
    then show ?thesis using "2.prems"(1) by auto
  next
    case False
    then have "k \<in> set below" using "2.prems"(2) ids by simp
    then obtain sub where "subtree_ids depth storage k = Some sub" "length sub \<le> length below"
        "set sub \<subseteq> set below"
      using "2.IH" [OF h below] by blast
    then show ?thesis using subtree_ids_Suc(1) ids by fastforce
  qed
next
  case (3 depth storage)
  then show ?case by simp
next
  case (4 depth storage c rest)
  from "4.prems"(1) obtain first others where f: "subtree_ids depth storage c = Some first"
    and o: "forest_ids depth storage rest = Some others"
    and ids: "ids = first @ others"
    by (auto split: option.splits)
  have "k \<in> set first \<or> k \<in> set others" using "4.prems"(2) ids by simp
  then show ?case
  proof
    assume "k \<in> set first"
    then show ?thesis using "4.IH"(1) [OF f] ids by fastforce
  next
    assume "k \<in> set others"
    then show ?thesis using "4.IH"(2) [OF f o] ids by fastforce
  qed
qed

lemma not_below_itself:
  assumes "s hid = Some habit" and "forest_ids depth s (subhabit_ids habit) = Some below"
  shows "hid \<notin> set below"
proof
  assume "hid \<in> set below"
  then obtain sub where "subtree_ids depth s hid = Some sub" "length sub \<le> length below"
    using subtree_ids_inside(2) [OF assms(2)] by blast
  then have "subtree_ids (Suc depth) s hid = Some sub" "length sub \<le> length below"
    using subtree_ids_Suc(1) by blast+
  then show False using assms by auto
qed

text \<open>A well-formed subtree is deleted as a whole, and nothing else is.\<close>

lemma delete_subhabits_total_step:
  assumes step: "\<And>hid svc ids. subtree_ids depth (habit_repo svc) hid = Some ids \<Longrightarrow> distinct ids
      \<Longrightarrow> delete_habit depth hid svc
            = (Inr (), svc\<lparr>habit_repo := habit_repo svc |` (- set ids)\<rparr>)"
  shows "forest_ids depth (habit_repo svc) cs = Some ids \<Longrightarrow> distinct ids
      \<Longrightarrow> delete_subhabits depth cs svc
            = (Inr (), svc\<lparr>habit_repo := habit_repo svc |` (- set ids)\<rparr>)"
proof (induction cs arbitrary: svc ids)
  case Nil
  then show ?case by simp
next
  case (Cons c rest)
  from Cons.prems(1) obtain first others
    where f: "subtree_ids depth (habit_repo svc) c = Some first"
      and o: "forest_ids depth (habit_repo svc) rest = Some others"
      and ids: "ids = first @ others"
    by (auto split: option.splits)
  have d: "distinct first" "distinct others" "set others \<inter> set first = {}"
    using Cons.prems(2) ids by auto
  define svc1 where "svc1 = svc\<lparr>habit_repo := habit_repo svc |` (- set first)\<rparr>"
  have 1: "delete_habit depth c svc = (Inr (), svc1)"
    unfolding svc1_def by (rule step [OF f d(1)])
  have "forest_ids depth (habit_repo svc1) rest = Some others"
    using forest_ids_restrict [OF o d(3)] by (simp add: svc1_def)
  then have "delete_subhabits depth rest svc1
             = (Inr (), svc1\<lparr>habit_repo := habit_repo svc1 |` (- set others)\<rparr>)"
    by (rule Cons.IH [OF _ d(2)])
  moreover have "svc1\<lparr>habit_repo := habit_repo svc1 |` (- set others)\<rparr>
                 = svc\<lparr>habit_repo := habit_repo svc |` (- set ids)\<rparr>"
    by (simp add: svc1_def ids Int_commute)
  ultimately show ?case using 1 by simp
qed

lemma delete_habit_total:
  "subtree_ids depth (habit_repo svc) hid = Some ids \<Longrightarrow> distinct ids
     \<Longrightarrow> delete_habit depth hid svc
           = (Inr (), svc\<lparr>habit_repo := habit_repo svc |` (- set ids)\<rparr>)"
proof (induction depth arbitrary: hid svc ids)
  case 0
  then show ?case by simp
next
  case (Suc depth)
  from Suc.prems(1) obtain habit below where h: "habit_repo svc hid = Some habit"
    and below: "forest_ids depth (habit_repo svc) (subhabit_ids habit) = Some below"
    and ids: "ids = hid # below"
    by (auto split: option.splits)
  have "delete_subhabits depth (subhabit_ids habit) svc
        = (Inr (), svc\<lparr>habit_repo := habit_repo svc |` (- set below)\<rparr>)"
    using delete_subhabits_total_step [of depth svc "subhabit_ids habit" below]
      Suc.IH below Suc.prems(2) ids by simp
  moreover have "(habit_repo svc |` (- set below))(hid := None)
                 = habit_repo svc |` (- set ids)"
    by (auto simp: ids restrict_map_def fun_eq_iff)
  ultimately show ?case using h by (simp add: habits_get_def habits_delete_def)
qed

lemma delete_subhabits_total:
  "forest_ids depth (habit_repo svc) cs = Some ids \<Longrightarrow> distinct ids
     \<Longrightarrow> delete_subhabits depth cs svc
           = (Inr (), svc\<lparr>habit_repo := habit_repo svc |` (- set ids)\<rparr>)"
  by (rule delete_subhabits_total_step) (rule delete_habit_total)

text \<open>Conversely, a call that returns has met a well-formed subtree.\<close>

lemma delete_subhabits_returns_step:
  assumes step: "\<And>hid svc svc'. delete_habit depth hid svc = (Inr (), svc')
      \<Longrightarrow> \<exists>ids. subtree_ids depth (habit_repo svc) hid = Some ids \<and> distinct ids"
  shows "delete_subhabits depth cs svc = (Inr (), svc')
      \<Longrightarrow> \<exists>ids. forest_ids depth (habit_repo svc) cs = Some ids \<and> distinct ids"
proof (induction cs arbitrary: svc)
  case Nil
  then show ?case by simp
next
  case (Cons c rest)
  obtain r svc1 where d: "delete_habit depth c svc = (r, svc1)"
    by (cases "delete_habit depth c svc")
  show ?case
  proof (cases r)
    case (Inl e)
    then show ?thesis using Cons.prems d by simp
  next
    case (Inr u)
    then have d': "delete_habit depth c svc = (Inr (), svc1)" using d by simp
    have rest: "delete_subhabits depth rest svc1 = (Inr (), svc')"
      using Cons.prems d Inr by simp
    obtain first where f: "subtree_ids depth (habit_repo svc) c = Some first" "distinct first"
      using step [OF d'] by blast
    have "svc1 = svc\<lparr>habit_repo := habit_repo svc |` (- set first)\<rparr>"
      using delete_habit_total [OF f] d' by simp
    then obtain others
      where "forest_ids depth (habit_repo svc |` (- set first)) rest = Some others"
        and do: "distinct others"
      using Cons.IH [OF rest] by auto
    then have o: "forest_ids depth (habit_repo svc) rest = Some others"
      and disj: "set others \<inter> set first = {}"
      using forest_ids_unrestrict by blast+
    have "forest_ids depth (habit_repo svc) (c # rest) = Some (first @ others)"
      using f(1) o by simp
    moreover have "distinct (first @ others)"
      using f(2) do disj by auto
    ultimately show ?thesis by blast
  qed
qed

lemma delete_habit_returns:
  "delete_habit depth hid svc = (Inr (), svc')
     \<Longrightarrow> \<exists>ids. subtree_ids depth (habit_repo svc) hid = Some ids \<and> distinct ids"
proof (induction depth arbitrary: hid svc svc')
  case 0
  then show ?case by simp
next
  case (Suc depth)
  show ?case
  proof (cases "habit_repo svc hid")
    case None
    then show ?thesis using Suc.prems by (simp add: habits_get_def)
  next
    case (Some habit)
    obtain r svc1 where d: "delete_subhabits depth (subhabit_ids habit) svc = (r, svc1)"
      by (cases "delete_subhabits depth (subhabit_ids habit) svc")
    show ?thesis
    proof (cases r)
      case (Inl e)
      then show ?thesis using Suc.prems Some d by (simp add: habits_get_def)
    next
      case (Inr u)
      then have "delete_subhabits depth (subhabit_ids habit) svc = (Inr (), svc1)"
        using d by simp
      then obtain below
        where below: "forest_ids depth (habit_repo svc) (subhabit_ids habit) = Some below"
          and db: "distinct below"
        using delete_subhabits_returns_step [of depth "subhabit_ids habit" svc svc1] Suc.IH
        by blast
      have "hid \<notin> set below" by (rule not_below_itself [OF Some below])
      then show ?thesis using Some below db by simp
    qed
  qed
qed

lemma subtree_ids_closed:
  assumes "subtree_ids depth s hid = Some ids" and "k \<in> set ids" and "s k = Some habit"
  shows "set (subhabit_ids habit) \<subseteq> set ids"
proof -
  obtain sub where sub: "subtree_ids depth s k = Some sub" and incl: "set sub \<subseteq> set ids"
    using subtree_ids_inside(1) [OF assms(1,2)] by blast
  obtain d where d: "depth = Suc d" using sub by (cases depth) simp_all
  obtain below where "forest_ids d s (subhabit_ids habit) = Some below" "sub = k # below"
    using sub assms(3) by (auto simp: d split: option.splits)
  then have "set (subhabit_ids habit) \<subseteq> set sub"
    using subtree_ids_stored(2) by fastforce
  then show ?thesis using incl by blast
qed

text \<open>
  Claim C6, as amended. Deleting a habit is recursive and depth-first: the habit is looked
  up, every id in its \<open>subhabit_ids\<close> is deleted in turn together with its own subtree, and
  then the habit itself is deleted. The call returns normally exactly when the subtree of
  the habit is well formed: every id met is stored, no id is met twice, and the depth stays
  within the bound. In that case the habit and every habit of its subtree (so every listed
  sub-habit, and theirs) are absent afterwards and getting any of them returns \<open>None\<close>,
  every other habit and the logs are unchanged, and at the end of the loop over the
  sub-habits the whole subtree but the habit itself has been removed. This covers a parent
  with one sub-habit whose subtree is well formed: both are absent afterwards.
\<close>

theorem cascading_delete:
  "(fst (delete_habit depth hid svc) = Inr ())
     = (\<exists>ids. subtree_ids depth (habit_repo svc) hid = Some ids \<and> distinct ids)
 \<and> (subtree_ids depth (habit_repo svc) hid = Some ids \<and> distinct ids \<longrightarrow>
       delete_habit depth hid svc
         = (Inr (), svc\<lparr>habit_repo := habit_repo svc |` (- set ids)\<rparr>)
     \<and> hid \<in> set ids
     \<and> (\<forall>k\<in>set ids. get_habit k svc \<noteq> None
           \<and> get_habit k (snd (delete_habit depth hid svc)) = None
           \<and> (\<forall>habit. get_habit k svc = Some habit \<longrightarrow> set (subhabit_ids habit) \<subseteq> set ids))
     \<and> (\<forall>k. k \<notin> set ids \<longrightarrow>
           get_habit k (snd (delete_habit depth hid svc)) = get_habit k svc)
     \<and> log_repo (snd (delete_habit depth hid svc)) = log_repo svc
     \<and> (\<forall>d habit. depth = Suc d \<and> get_habit hid svc = Some habit \<longrightarrow>
           delete_subhabits d (subhabit_ids habit) svc
             = (Inr (), svc\<lparr>habit_repo := habit_repo svc |` (- set (tl ids))\<rparr>)
           \<and> hid \<notin> set (tl ids)))"
proof -
  have iff: "(fst (delete_habit depth hid svc) = Inr ())
     = (\<exists>ids. subtree_ids depth (habit_repo svc) hid = Some ids \<and> distinct ids)"
  proof
    assume "fst (delete_habit depth hid svc) = Inr ()"
    then have "delete_habit depth hid svc = (Inr (), snd (delete_habit depth hid svc))"
      by (simp add: prod_eq_iff)
    then show "\<exists>ids. subtree_ids depth (habit_repo svc) hid = Some ids \<and> distinct ids"
      by (rule delete_habit_returns)
  next
    assume "\<exists>ids. subtree_ids depth (habit_repo svc) hid = Some ids \<and> distinct ids"
    then show "fst (delete_habit depth hid svc) = Inr ()"
      using delete_habit_total by fastforce
  qed
  have rest: "delete_habit depth hid svc
         = (Inr (), svc\<lparr>habit_repo := habit_repo svc |` (- set ids)\<rparr>)
     \<and> hid \<in> set ids
     \<and> (\<forall>k\<in>set ids. get_habit k svc \<noteq> None
           \<and> get_habit k (snd (delete_habit depth hid svc)) = None
           \<and> (\<forall>habit. get_habit k svc = Some habit \<longrightarrow> set (subhabit_ids habit) \<subseteq> set ids))
     \<and> (\<forall>k. k \<notin> set ids \<longrightarrow>
           get_habit k (snd (delete_habit depth hid svc)) = get_habit k svc)
     \<and> log_repo (snd (delete_habit depth hid svc)) = log_repo svc
     \<and> (\<forall>d habit. depth = Suc d \<and> get_habit hid svc = Some habit \<longrightarrow>
           delete_subhabits d (subhabit_ids habit) svc
             = (Inr (), svc\<lparr>habit_repo := habit_repo svc |` (- set (tl ids))\<rparr>)
           \<and> hid \<notin> set (tl ids))"
    if t: "subtree_ids depth (habit_repo svc) hid = Some ids" and di: "distinct ids"
  proof -
    have eq: "delete_habit depth hid svc
         = (Inr (), svc\<lparr>habit_repo := habit_repo svc |` (- set ids)\<rparr>)"
      by (rule delete_habit_total [OF t di])
    have mem: "hid \<in> set ids"
      using subtree_ids_stored(1) [OF t] by simp
    have each: "\<forall>k\<in>set ids. get_habit k svc \<noteq> None
           \<and> get_habit k (snd (delete_habit depth hid svc)) = None
           \<and> (\<forall>habit. get_habit k svc = Some habit \<longrightarrow> set (subhabit_ids habit) \<subseteq> set ids)"
    proof
      fix k assume k: "k \<in> set ids"
      have "habit_repo svc k \<noteq> None" using subtree_ids_stored(1) [OF t] k by blast
      moreover have "(habit_repo svc |` (- set ids)) k = None" using k by simp
      moreover have "\<forall>habit. habit_repo svc k = Some habit
                       \<longrightarrow> set (subhabit_ids habit) \<subseteq> set ids"
        using subtree_ids_closed [OF t k] by blast
      ultimately show "get_habit k svc \<noteq> None
           \<and> get_habit k (snd (delete_habit depth hid svc)) = None
           \<and> (\<forall>habit. get_habit k svc = Some habit \<longrightarrow> set (subhabit_ids habit) \<subseteq> set ids)"
        by (simp add: eq get_habit_def habits_get_def)
    qed
    have others: "\<forall>k. k \<notin> set ids \<longrightarrow>
           get_habit k (snd (delete_habit depth hid svc)) = get_habit k svc"
      by (simp add: eq get_habit_def habits_get_def)
    have logs: "log_repo (snd (delete_habit depth hid svc)) = log_repo svc"
      by (simp add: eq)
    have order: "\<forall>d habit. depth = Suc d \<and> get_habit hid svc = Some habit \<longrightarrow>
           delete_subhabits d (subhabit_ids habit) svc
             = (Inr (), svc\<lparr>habit_repo := habit_repo svc |` (- set (tl ids))\<rparr>)
           \<and> hid \<notin> set (tl ids)"
    proof (intro allI impI)
      fix d habit assume a: "depth = Suc d \<and> get_habit hid svc = Some habit"
      then have h: "habit_repo svc hid = Some habit"
        by (simp add: get_habit_def habits_get_def)
      obtain below where below: "forest_ids d (habit_repo svc) (subhabit_ids habit) = Some below"
        and ids: "ids = hid # below"
        using t a h by (auto split: option.splits)
      have "distinct below" "hid \<notin> set below" using di ids by simp_all
      then show "delete_subhabits d (subhabit_ids habit) svc
             = (Inr (), svc\<lparr>habit_repo := habit_repo svc |` (- set (tl ids))\<rparr>)
           \<and> hid \<notin> set (tl ids)"
        using delete_subhabits_total [OF below] ids by simp
    qed
    show ?thesis by (intro conjI eq mem each others logs order)
  qed
  show ?thesis using iff rest by blast
qed

theorem cascading_delete_witness:
  "subtree_ids 1000 (habit_repo example_three_levels) ''p'' = Some [''p'', ''a'', ''e'']
   \<and> fst (delete_habit 1000 ''p'' example_three_levels) = Inr ()
   \<and> get_habit ''p'' (snd (delete_habit 1000 ''p'' example_three_levels)) = None
   \<and> get_habit ''a'' (snd (delete_habit 1000 ''p'' example_three_levels)) = None
   \<and> get_habit ''e'' (snd (delete_habit 1000 ''p'' example_three_levels)) = None
   \<and> subtree_ids 2 (habit_repo example_family) ''p'' = Some [''p'', ''c'']
   \<and> get_habit ''p'' (snd (delete_habit 2 ''p'' example_family)) = None
   \<and> get_habit ''c'' (snd (delete_habit 2 ''p'' example_family)) = None"
proof -
  have t: "subtree_ids 1000 (habit_repo example_three_levels) ''p'' = Some [''p'', ''a'', ''e'']"
    by code_simp
  have d: "distinct [''p'', ''a'', ''e'']" by simp
  note r = cascading_delete [where depth = 1000 and svc = example_three_levels
      and hid = "''p''" and ids = "[''p'', ''a'', ''e'']", THEN conjunct2, THEN mp, OF conjI [OF t d]]
  have ok: "fst (delete_habit 1000 ''p'' example_three_levels) = Inr ()"
    by (simp only: r [THEN conjunct1] fst_conv)
  have gone: "\<forall>k\<in>set [''p'', ''a'', ''e''].
      get_habit k (snd (delete_habit 1000 ''p'' example_three_levels)) = None"
    using r [THEN conjunct2, THEN conjunct2, THEN conjunct1] by blast
  have t': "subtree_ids 2 (habit_repo example_family) ''p'' = Some [''p'', ''c'']"
    by code_simp
  have d': "distinct [''p'', ''c'']" by simp
  note r' = cascading_delete [where depth = 2 and svc = example_family
      and hid = "''p''" and ids = "[''p'', ''c'']", THEN conjunct2, THEN mp, OF conjI [OF t' d']]
  have gone': "\<forall>k\<in>set [''p'', ''c''].
      get_habit k (snd (delete_habit 2 ''p'' example_family)) = None"
    using r' [THEN conjunct2, THEN conjunct2, THEN conjunct1] by blast
  show ?thesis using t ok gone t' gone' by simp
qed

text \<open>
  Claim C6 as stated fails on a store that holds a habit with one sub-habit: \<open>p\<close> lists
  \<open>a\<close>, and \<open>a\<close> still lists its deleted sub-habit \<open>e\<close>. Deleting \<open>p\<close> raises the not-found
  error, and \<open>p\<close> and \<open>a\<close> are both still stored.
\<close>

theorem cascading_delete_counterexample:
  "map_option subhabit_ids (get_habit ''p'' example_one_subhabit) = Some [''a'']
   \<and> get_habit ''a'' example_one_subhabit \<noteq> None
   \<and> fst (delete_habit 1000 ''p'' example_one_subhabit) = Inl (ValueError ''Habit not found'')
   \<and> get_habit ''p'' (snd (delete_habit 1000 ''p'' example_one_subhabit)) \<noteq> None
   \<and> get_habit ''a'' (snd (delete_habit 1000 ''p'' example_one_subhabit)) \<noteq> None"
  by code_simp

text \<open>
  Claim C10, as amended. When a habit lists a sub-habit id that is absent from the store,
  deleting it never returns normally and the habit itself stays in the store. When
  moreover the cascades for the sub-habits listed before the absent id complete, the call
  raises the not-found error, those sub-habits have been deleted and are not restored, and
  the logs are unchanged.
\<close>

theorem delete_with_dangling_subhabit:
  assumes h: "habit_repo svc hid = Some habit"
    and ids: "subhabit_ids habit = pre @ x # post"
    and x: "habit_repo svc x = None"
  shows "isl (fst (delete_habit depth hid svc))
       \<and> get_habit hid (snd (delete_habit depth hid svc)) = Some habit
       \<and> (fst (delete_subhabits (Suc depth) pre svc) = Inr () \<longrightarrow>
            delete_habit (Suc (Suc depth)) hid svc
              = (Inl (ValueError ''Habit not found''), snd (delete_subhabits (Suc depth) pre svc))
            \<and> (\<forall>c\<in>set pre. get_habit c (snd (delete_habit (Suc (Suc depth)) hid svc)) = None)
            \<and> get_habit hid (snd (delete_habit (Suc (Suc depth)) hid svc)) = Some habit
            \<and> log_repo (snd (delete_habit (Suc (Suc depth)) hid svc)) = log_repo svc)"
proof -
  have mem: "x \<in> set (subhabit_ids habit)" by (simp add: ids)
  have keep: "\<And>d k s. habit_repo s hid = Some habit \<Longrightarrow> habit_repo s x = None \<Longrightarrow>
            habit_repo (snd (delete_habit d k s)) hid = Some habit"
    using delete_habit_dangling [OF _ mem] by blast
  have 1: "isl (fst (delete_habit depth hid svc))"
  proof (cases depth)
    case 0
    then show ?thesis by simp
  next
    case (Suc d)
    have "isl (fst (delete_subhabits d (subhabit_ids habit) svc))"
      using delete_subhabits_dangling_step [of hid habit x d svc "subhabit_ids habit"]
        keep h x mem by blast
    then show ?thesis
      using Suc h by (cases "delete_subhabits d (subhabit_ids habit) svc")
                     (auto simp: habits_get_def isl_def)
  qed
  have 2: "get_habit hid (snd (delete_habit depth hid svc)) = Some habit"
    using keep [OF h x] by (simp add: get_habit_def habits_get_def)
  have 3: "delete_habit (Suc (Suc depth)) hid svc
              = (Inl (ValueError ''Habit not found''), snd (delete_subhabits (Suc depth) pre svc))
            \<and> (\<forall>c\<in>set pre. get_habit c (snd (delete_habit (Suc (Suc depth)) hid svc)) = None)
            \<and> get_habit hid (snd (delete_habit (Suc (Suc depth)) hid svc)) = Some habit
            \<and> log_repo (snd (delete_habit (Suc (Suc depth)) hid svc)) = log_repo svc"
    if ok: "fst (delete_subhabits (Suc depth) pre svc) = Inr ()"
  proof -
    define s1 where "s1 = snd (delete_subhabits (Suc depth) pre svc)"
    have pre: "delete_subhabits (Suc depth) pre svc = (Inr (), s1)"
      using ok by (simp add: s1_def prod_eq_iff)
    have sh: "shrinks svc s1"
      using delete_subhabits_shrinks [of svc "Suc depth" pre] by (simp add: s1_def)
    have x1: "habit_repo s1 x = None"
      using sh x by (rule shrinks_absent)
    have dx: "delete_habit (Suc depth) x s1 = (Inl (ValueError ''Habit not found''), s1)"
      using delete_habit_absent [OF x1, of "Suc depth"] by simp
    have "delete_subhabits (Suc depth) (pre @ x # post) svc
          = (Inl (ValueError ''Habit not found''), s1)"
      by (simp add: delete_subhabits_append pre dx del: delete_habit.simps)
    then have eq: "delete_habit (Suc (Suc depth)) hid svc
                   = (Inl (ValueError ''Habit not found''), s1)"
      using h ids by (simp add: habits_get_def del: delete_subhabits.simps)
    have gone: "\<forall>c\<in>set pre. habit_repo s1 c = None"
      using delete_subhabits_removes [OF pre] .
    have kept: "habit_repo s1 hid = Some habit"
      using keep [OF h x, of "Suc (Suc depth)" hid] eq by simp
    have logs: "log_repo s1 = log_repo svc"
      using sh by (simp add: shrinks_def)
    show ?thesis
      unfolding eq using gone kept logs by (simp add: get_habit_def habits_get_def s1_def)
  qed
  show ?thesis using 1 2 3 by blast
qed

theorem delete_with_dangling_subhabit_witness:
  "fst (delete_subhabits (Suc 0) [''a''] example_dangling) = Inr ()
   \<and> fst (delete_habit (Suc (Suc 0)) ''p'' example_dangling)
       = Inl (ValueError ''Habit not found'')
   \<and> get_habit ''a'' example_dangling \<noteq> None
   \<and> get_habit ''a'' (snd (delete_habit (Suc (Suc 0)) ''p'' example_dangling)) = None
   \<and> get_habit ''p'' (snd (delete_habit (Suc (Suc 0)) ''p'' example_dangling))
       = get_habit ''p'' example_dangling"
proof -
  let ?parent = "\<lparr>habit_id = ''p'', name = ''Parent'', description = None, category = None,
     habit_type = BOOLEAN, goal = None, created_at = 0, parent_id = None,
     subhabit_ids = [''a'', ''d'']\<rparr>"
  have p: "habit_repo example_dangling ''p'' = Some ?parent" by code_simp
  have ids: "subhabit_ids ?parent = [''a''] @ ''d'' # []" by simp
  have x: "habit_repo example_dangling ''d'' = None" by code_simp
  have ok: "fst (delete_subhabits (Suc 0) [''a''] example_dangling) = Inr ()" by code_simp
  have a: "get_habit ''a'' example_dangling \<noteq> None" by code_simp
  note r = delete_with_dangling_subhabit [OF p ids x, of 0, THEN conjunct2, THEN conjunct2,
          THEN mp, OF ok]
  have 1: "fst (delete_habit (Suc (Suc 0)) ''p'' example_dangling)
           = Inl (ValueError ''Habit not found'')"
    by (simp only: r [THEN conjunct1] fst_conv)
  have 2: "get_habit ''a'' (snd (delete_habit (Suc (Suc 0)) ''p'' example_dangling)) = None"
    using r [THEN conjunct2, THEN conjunct1]
    by (simp del: delete_habit.simps delete_subhabits.simps)
  have 3: "get_habit ''p'' (snd (delete_habit (Suc (Suc 0)) ''p'' example_dangling))
           = get_habit ''p'' example_dangling"
    using r [THEN conjunct2, THEN conjunct2, THEN conjunct1] p
    by (simp add: get_habit_def habits_get_def del: delete_habit.simps delete_subhabits.simps)
  show ?thesis
    by (intro conjI ok 1 a 2 3)
qed

text \<open>
  Claim C10 as stated fails where a sub-habit listed before the absent id cannot be deleted
  itself: \<open>p\<close> lists \<open>a\<close> and the absent \<open>d\<close>, and \<open>a\<close> lists the absent \<open>e\<close>. Deleting \<open>p\<close>
  raises the not-found error, and \<open>a\<close> is still stored.
\<close>

theorem delete_with_dangling_subhabit_counterexample:
  "map_option subhabit_ids (get_habit ''p'' example_nested_dangling) = Some [''a'', ''d'']
   \<and> get_habit ''d'' example_nested_dangling = None
   \<and> fst (delete_habit 1000 ''p'' example_nested_dangling) = Inl (ValueError ''Habit not found'')
   \<and> get_habit ''a'' example_nested_dangling \<noteq> None
   \<and> get_habit ''a'' (snd (delete_habit 1000 ''p'' example_nested_dangling))
       = get_habit ''a'' example_nested_dangling"
  by code_simp

section \<open>Not-found errors and update\<close>

text \<open>
  Claim C8. When the addressed habit id (the parent id, for add-subhabit) is absent from
  the habit store, each of update, delete, add-subhabit, record-log, get-logs and
  get-statistics raises the not-found error and returns the service as it was, habits and
  logs unchanged; get returns \<open>None\<close> and raises nothing. (The call of delete is one
  that the recursion limit admits: its depth bound is positive.)
\<close>

theorem not_found_leaves_stores_unchanged:
  assumes "habit_repo svc hid = None"
  shows "update_habit hid update svc = (Inl (ValueError ''Habit not found''), svc)
       \<and> delete_habit (Suc depth) hid svc = (Inl (ValueError ''Habit not found''), svc)
       \<and> add_subhabit hid subhabit svc = (Inl (ValueError ''Parent habit not found''), svc)
       \<and> record_log uuid now hid d v svc = (Inl (ValueError ''Habit not found''), svc)
       \<and> get_logs hid wstart wend svc = (Inl (ValueError ''Habit not found''), svc)
       \<and> get_statistics today hid wstart wend svc = (Inl (ValueError ''Habit not found''), svc)
       \<and> get_habit hid svc = None"
  using assms
  by (simp add: update_habit_def add_subhabit_def record_log_def get_logs_def
                get_statistics_def get_habit_def habits_get_def)

theorem not_found_leaves_stores_unchanged_witness:
  "habit_repo example_family ''ghost'' = None
   \<and> update_habit ''ghost'' example_update example_family
       = (Inl (ValueError ''Habit not found''), example_family)
   \<and> delete_habit (Suc 999) ''ghost'' example_family
       = (Inl (ValueError ''Habit not found''), example_family)
   \<and> get_statistics 100 ''ghost'' None None example_family
       = (Inl (ValueError ''Habit not found''), example_family)
   \<and> get_habit ''ghost'' example_family = None"
proof -
  have a: "habit_repo example_family ''ghost'' = None"
    by code_simp
  show ?thesis
    using a not_found_leaves_stores_unchanged [OF a, of example_update 999
         example_boolean_habit "''u''" 0 100 "Some 1" None None 100]
    by simp
qed

text \<open>
  Claim C9. On a habit stored under its id, update succeeds and changes only the fields
  among name, description, category and goal that the request supplies; the other fields
  of these four keep their values, and id, type, created_at, parent_id and subhabit_ids are
  unchanged. The store changes at that id only. The same holds over the SQLite repository.
\<close>

theorem update_habit_frame:
  assumes "habit_repo svc hid = Some habit" and "habit_id habit = hid"
  shows "\<exists>habit'.
           update_habit hid update svc
             = (Inr habit', svc\<lparr>habit_repo := (habit_repo svc)(hid \<mapsto> habit')\<rparr>)
         \<and> update_habit_sqlite hid update svc
             = (Inr habit', svc\<lparr>habit_repo := (habit_repo svc)(hid \<mapsto> habit')\<rparr>)
         \<and> name habit' = (case upd_name update of Some n \<Rightarrow> n | None \<Rightarrow> name habit)
         \<and> description habit'
             = (case upd_description update of Some d \<Rightarrow> Some d | None \<Rightarrow> description habit)
         \<and> category habit'
             = (case upd_category update of Some c \<Rightarrow> Some c | None \<Rightarrow> category habit)
         \<and> goal habit' = (case upd_goal update of Some g \<Rightarrow> Some g | None \<Rightarrow> goal habit)
         \<and> habit_id habit' = habit_id habit
         \<and> habit_type habit' = habit_type habit
         \<and> created_at habit' = created_at habit
         \<and> parent_id habit' = parent_id habit
         \<and> subhabit_ids habit' = subhabit_ids habit"
  using assms
  by (cases "upd_name update"; cases "upd_description update"; cases "upd_category update";
      cases "upd_goal update")
     (simp_all add: update_habit_def update_habit_sqlite_def habits_get_def sqlite_get_def
                    habits_update_def sqlite_update_def write_back_def Let_def)

theorem update_habit_frame_witness:
  "map_option habit_id (habit_repo example_family ''p'') = Some ''p''
   \<and> (\<exists>habit'. fst (update_habit ''p'' example_update example_family) = Inr habit'
         \<and> fst (update_habit_sqlite ''p'' example_update example_family) = Inr habit'
         \<and> name habit' = ''Updated'' \<and> description habit' = None \<and> goal habit' = Some 10
         \<and> subhabit_ids habit' = [''c''])"
proof -
  let ?parent = "\<lparr>habit_id = ''p'', name = ''Parent'', description = None, category = None,
     habit_type = BOOLEAN, goal = None, created_at = 0, parent_id = None,
     subhabit_ids = [''c'']\<rparr>"
  have p: "habit_repo example_family ''p'' = Some ?parent" by code_simp
  have i: "habit_id ?parent = ''p''" by simp
  obtain habit' where
    "update_habit ''p'' example_update example_family
       = (Inr habit', example_family\<lparr>habit_repo := (habit_repo example_family)(''p'' \<mapsto> habit')\<rparr>)"
    "update_habit_sqlite ''p'' example_update example_family
       = (Inr habit', example_family\<lparr>habit_repo := (habit_repo example_family)(''p'' \<mapsto> habit')\<rparr>)"
    "name habit' = (case upd_name example_update of Some n \<Rightarrow> n | None \<Rightarrow> name ?parent)"
    "description habit' = (case upd_description example_update of Some d \<Rightarrow> Some d
                           | None \<Rightarrow> description ?parent)"
    "goal habit' = (case upd_goal example_update of Some g \<Rightarrow> Some g | None \<Rightarrow> goal ?parent)"
    "subhabit_ids habit' = subhabit_ids ?parent"
    using update_habit_frame [OF p i, of example_update] by (elim exE conjE)
  then show ?thesis
    using p by (intro conjI exI [of _ habit']) (simp_all add: example_update_def)
qed

section \<open>Linkage of habits and sub-habits\<close>

text \<open>
  Claim C7 on the code. After a parent \<open>p\<close> and its sub-habit \<open>c\<close> are created through the API,
  the linkage holds at both. Deleting \<open>c\<close> leaves its id in the list of \<open>p\<close>, so the linkage
  fails at \<open>p\<close>, and \<open>p\<close> can no longer be deleted although it is stored. A habit created
  with the id of a parent that does not exist is stored as it is.
\<close>

theorem linkage_broken_by_subhabit_delete:
  "linkage_holds_at example_family ''p''
   \<and> linkage_holds_at example_family ''c''
   \<and> fst (api_delete_habit 1000 ''c'' example_family) = Inr ()
   \<and> map_option subhabit_ids (get_habit ''p'' (snd (api_delete_habit 1000 ''c'' example_family)))
       = Some [''c'']
   \<and> get_habit ''c'' (snd (api_delete_habit 1000 ''c'' example_family)) = None
   \<and> \<not> linkage_holds_at (snd (api_delete_habit 1000 ''c'' example_family)) ''p''
   \<and> fst (api_delete_habit 1000 ''p'' (snd (api_delete_habit 1000 ''c'' example_family)))
       = Inl (HTTPException 404 ''Habit not found'')
   \<and> \<not> linkage_holds_at
          (snd (api_create_habit ''x'' 0 ((example_payload ''Orphan'')\<lparr>hc_parent_id := Some ''ghost''\<rparr>)
                  empty_service)) ''x''"
  by code_simp

end
